theory Spec2Isabelle
  imports Complex_Main "HOL-Library.AList"
begin

section \<open>iminuit: the \<open>Minuit\<close> session of \<open>src/iminuit/_libiminuit.pyx\<close>\<close>

text \<open>
  The development embeds the orchestration layer of the \<open>Minuit\<close> class: the
  constructor, \<open>initialParameterState\<close>, \<open>migrad\<close>, \<open>hesse\<close>, \<open>minos\<close>,
  \<open>matrix\<close>, \<open>profile\<close>, \<open>mncontour\<close> and \<open>refreshInternalState\<close>.

  Conventions.
  \<^item> A C \<open>double\<close> or Python \<open>float\<close> is a \<open>real\<close>: rounding and overflow are not
    modelled. The two infinities, which the limit code compares against, are explicit
    (\<open>pyfloat\<close>).
  \<^item> A method of the class takes the session and returns the outcome together with the
    session as the call leaves it: \<open>(error + 'a) \<times> session\<close>. \<open>Inl\<close> is a raised
    exception; the session returned beside it is the object the caller still holds.
  \<^item> \<open>warn(...)\<close> appends to the field \<open>diag\<close> of the session.
  \<^item> The Minuit2 engine (C++) and the helpers of \<open>iminuit.util\<close> are not part of the
    sources at hand. Numerical routines are parameters (record \<open>engine\<close>); the
    parameter-state container is modelled from the specification.
  \<^item> \<open>del p\<close> on a C++ handle frees the object and leaves the pointer as it was; the
    model keeps the old value and does not model the use of a freed object.
  \<^item> Calls of the presentation frontend (\<open>print_banner\<close>, \<open>print_fmin\<close>, ...) have no
    effect on the session and are left out; what the printing methods compute before
    they reach the frontend is kept (\<open>print_matrix\<close>).
  \<^item> The PyMinuit compatibility views \<open>covariance\<close>, \<open>gcc\<close>, \<open>fitarg\<close> and the
    dictionary \<open>pos2var\<close> are read by none of the embedded methods and are left out.
\<close>

subsection \<open>Values and errors\<close>

text \<open>A Python float that is not NaN.\<close>

datatype pyfloat = NegInf | Fin real | PosInf

text \<open>\<open>a >= b\<close> on such floats.\<close>

fun pf_ge :: "pyfloat \<Rightarrow> pyfloat \<Rightarrow> bool" where
  "pf_ge PosInf b = True"
| "pf_ge a NegInf = True"
| "pf_ge (Fin a) (Fin b) = (b \<le> a)"
| "pf_ge a b = False"

text \<open>
  The value of a keyword \<open>limit_x\<close>: \<open>None\<close>, or a pair whose components are \<open>None\<close>
  or a float.
\<close>

type_synonym limit = "(pyfloat option \<times> pyfloat option) option"

text \<open>
  Every exception the embedded methods raise. The comment gives the Python class and
  the start of the message.
\<close>

datatype error =
    KeyError string
    \<comment> \<open>\<open>KeyError\<close>: a dictionary has no such key; also \<open>use_array_call=True requires ...\<close>\<close>
  | UnknownKeyword string "string list"
    \<comment> \<open>\<open>RuntimeError('Cannot understand keyword %s. May be a typo? The parameters are %r')\<close>\<close>
  | InvalidLimit string pyfloat pyfloat
    \<comment> \<open>\<open>ValueError('limit for parameter %s is invalid. %r' % (v, (lb, ub)))\<close>\<close>
  | RunMigradFirst
    \<comment> \<open>\<open>RuntimeError('Run migrad first')\<close>, from \<open>hesse\<close>\<close>
  | MinosNeedsMinimum
    \<comment> \<open>\<open>RuntimeError('Minos require function to be at the minimum. Run migrad first.')\<close>\<close>
  | MinimumNotValid
    \<comment> \<open>\<open>RuntimeError('Function mimimum is not valid. Make sure migrad converge first')\<close>\<close>
  | ParameterNotFound string "string list"
    \<comment> \<open>\<open>RuntimeError('Specified parameters(%r) cannot be found in parameter list :' ...)\<close>\<close>
  | NoParameterState
    \<comment> \<open>\<open>RuntimeError('Run migrad/hesse first')\<close>, from \<open>matrix\<close>\<close>
  | CovarianceNotValid
    \<comment> \<open>\<open>RuntimeError('Covariance is not valid. May be the last Hesse call failed?')\<close>\<close>
  | ContourNeedsMigrad
    \<comment> \<open>\<open>ValueError('Run Migrad first')\<close>, from \<open>mncontour\<close>\<close>
  | ContourOnFixed
    \<comment> \<open>\<open>ValueError('mncontour has to be run on vary parameters.')\<close>\<close>
  | SubtractNeedsMinimum
    \<comment> \<open>\<open>RuntimeError('Request for minimization subtraction but no minimization ...')\<close>\<close>
  | AssertionError
    \<comment> \<open>\<open>assert (ncall_round > 0)\<close>\<close>
  | ZeroDivisionError
  | OverflowError
    \<comment> \<open>an argument declared C \<open>int\<close> does not fit one: the call is refused at entry\<close>
  | IndexError
  | NegativeSamples
    \<comment> \<open>\<open>ValueError\<close> of \<open>numpy.linspace\<close> for a negative number of samples\<close>
  | CovIndexOutOfRange nat nat
    \<comment> \<open>the engine's range assertion in \<open>MnUserCovariance::operator()\<close>\<close>
  | NullPointer
    \<comment> \<open>a NULL C++ handle is dereferenced; the model stops there\<close>
  | ObjectiveRaised string
    \<comment> \<open>an exception of the user's objective or gradient callable\<close>

text \<open>The diagnostics given to \<open>warn\<close>.\<close>

datatype warning =
    ErrordefNotGiven
    \<comment> \<open>\<open>InitialParamWarning('errordef is not given. Default to 1.')\<close>\<close>
  | NoInitialValue string
    \<comment> \<open>\<open>InitialParamWarning\<close>: parameter does not have initial value\<close>
  | NoInitialStep string
    \<comment> \<open>\<open>InitialParamWarning\<close>: parameter is floating but has no initial step size\<close>
  | NoSuchParameter string string
    \<comment> \<open>\<open>InitialParamWarning\<close>: a limit, fix or error keyword of no parameter: keyword, name\<close>
  | HesseFailedWarning
    \<comment> \<open>\<open>'HESSE Failed. Covariance and GlobalCC will not be available'\<close>\<close>
  | MinosOnFixed
    \<comment> \<open>\<open>RuntimeWarning('Specified variable name for minos is set to fixed')\<close>\<close>

subsection \<open>The engine's objects\<close>

text \<open>
  Modelled from the spec: \<open>MinuitParameter\<close>, one entry of
  \<open>MnUserParameterState.MinuitParameters()\<close>: "name, initial value, initial
  step/error estimate, optional (lower, upper) limit pair, fixed flag".
\<close>

record minuit_parameter =
  p_name :: string
  p_value :: real
  p_error :: real
  p_lower :: "pyfloat option"
  p_upper :: "pyfloat option"
  p_fixed :: bool

text \<open>
  Modelled from the spec: \<open>MnUserCovariance\<close>, "a square mapping over the varying
  (non-fixed) parameters at the time it was computed". Row and column are positions
  among the varying parameters; \<open>refreshInternalState\<close> of the sources reads it the same
  way (\<open>cov.get(i, j)\<close> for \<open>i, v1 in enumerate(vary_param)\<close>).
\<close>

record user_covariance =
  c_nrow :: nat
  c_data :: "nat \<Rightarrow> nat \<Rightarrow> real"

text \<open>
  Modelled from the spec: \<open>mncov.get(i, j)\<close>, the entry of the square mapping; outside
  of it the engine's range assertion fails.
\<close>

definition cov_get :: "user_covariance \<Rightarrow> nat \<Rightarrow> nat \<Rightarrow> error + real" where
  "cov_get c i j =
     (if i < c_nrow c \<and> j < c_nrow c then Inr (c_data c i j)
      else Inl (CovIndexOutOfRange i j))"

text \<open>
  Modelled from the spec: \<open>MnUserParameterState\<close>, the "ordered parameter-state
  object" with its optional covariance, the objective value, the calls consumed and
  the EDM.
\<close>

record upstate =
  u_params :: "minuit_parameter list"
  u_cov :: "user_covariance option"
  u_fval :: real
  u_nfcn :: nat
  u_edm :: real

text \<open>
  Modelled from the spec: the objective adapter (\<open>PythonFCN\<close>, or
  \<open>PythonGradientFCN\<close> when \<open>f_grad\<close>), with "the error-definition scale (errordef,
  aka UP), a monotonically increasing call counter (and a separate gradient-call
  counter), and a NaN-raises flag", as \<open>construct_FCN\<close> fills it.
\<close>

record adapter =
  f_up :: real
  f_ncall :: nat
  f_ngrad :: nat
  f_grad :: bool
  f_array_call :: bool
  f_names :: "string list"
  f_throw_nan :: bool

text \<open>
  Modelled from the spec: \<open>MnMigrad\<close>, "construct-with(objective-adapter,
  initial-parameter-state, strategy-level)", with the print level and precision that
  \<open>migrad\<close> sets on it.
\<close>

record mnmigrad =
  m_state :: upstate
  m_strategy :: nat
  m_print_level :: int
  m_precision :: "real option"

text \<open>
  Modelled from the spec: \<open>FunctionMinimum\<close>, the "minimum-object [that] exposes
  validity, value, ... and a parameter-state-with-optional-covariance".
\<close>

record fmin =
  fm_valid :: bool
  fm_fval :: real
  fm_state :: upstate

text \<open>
  Modelled from the spec: the MINOS error record, "lower and upper asymmetric offsets
  from the best-fit value, plus validity sub-flags". \<open>minoserror2struct\<close> is the
  identity on it.
\<close>

record minos_struct =
  lower :: real
  upper :: real
  is_valid :: bool
  at_lower_limit :: bool
  at_upper_limit :: bool
  at_lower_max_fcn :: bool
  at_upper_max_fcn :: bool
  lower_new_min :: bool
  upper_new_min :: bool

text \<open>
  Modelled from the spec: \<open>ContoursError\<close>, the "ordered list of (x,y) boundary points
  plus the two MINOS records for the traced parameters".
\<close>

record contours =
  x_minos :: minos_struct
  y_minos :: minos_struct
  points :: "(real \<times> real) list"

text \<open>
  What a call into the engine gives back: the result or the exception that came out of
  it, and how often it called the objective and the gradient.
\<close>

type_synonym 'a engine_call = "(error + 'a) \<times> nat \<times> nat"

text \<open>
  The engine. \<open>value_after_limit lo hi v\<close> and \<open>error_after_limit lo hi e\<close> are
  what the parameter state shows as value and error once a limit has been set on a
  parameter that showed \<open>v\<close> and \<open>e\<close> (the bounded reparameterization).
\<close>

record engine =
  value_after_limit :: "pyfloat option \<Rightarrow> pyfloat option \<Rightarrow> real \<Rightarrow> real"
  error_after_limit :: "pyfloat option \<Rightarrow> pyfloat option \<Rightarrow> real \<Rightarrow> real"
  run_migrad :: "adapter \<Rightarrow> mnmigrad \<Rightarrow> int \<Rightarrow> real \<Rightarrow> (fmin \<times> mnmigrad) engine_call"
  run_hesse :: "adapter \<Rightarrow> upstate \<Rightarrow> nat \<Rightarrow> nat \<Rightarrow> upstate engine_call"
  run_minos :: "adapter \<Rightarrow> fmin \<Rightarrow> nat \<Rightarrow> nat \<Rightarrow> nat \<Rightarrow> minos_struct engine_call"
  run_contour :: "adapter \<Rightarrow> fmin \<Rightarrow> nat \<Rightarrow> nat \<Rightarrow> nat \<Rightarrow> int \<Rightarrow> contours engine_call"

subsection \<open>The parameter state container\<close>

text \<open>
  Modelled from the spec: the operations of \<open>MnUserParameterState\<close> that
  \<open>initialParameterState\<close> calls. "For each parameter in registration order, set value
  and error; for parameters with limits, apply a two-sided/one-sided/unbounded
  transform"; "bounded parameters use an internal reparameterization whose
  externally-visible value must be restored post-transform"; "finally apply fixed
  flags".
\<close>

definition new_state :: upstate where
  "new_state = \<lparr>u_params = [], u_cov = None, u_fval = 0, u_nfcn = 0, u_edm = 0\<rparr>"

text \<open>
  Modelled from the spec: a setter of the container acts on the parameter of the given
  name and on no other.
\<close>

definition on_param :: "string \<Rightarrow> (minuit_parameter \<Rightarrow> minuit_parameter) \<Rightarrow> upstate \<Rightarrow> upstate" where
  "on_param v g st = st\<lparr>u_params := map (\<lambda>p. if p_name p = v then g p else p) (u_params st)\<rparr>"

text \<open>Modelled from the spec: \<open>Add(name, value, error)\<close> registers the next parameter.\<close>

definition Add :: "string \<Rightarrow> real \<Rightarrow> real \<Rightarrow> upstate \<Rightarrow> upstate" where
  "Add v x e st =
     st\<lparr>u_params := u_params st @
        [\<lparr>p_name = v, p_value = x, p_error = e, p_lower = None, p_upper = None,
          p_fixed = False\<rparr>]\<rparr>"

text \<open>
  Modelled from the spec: setting a limit records it and lets the engine's
  reparameterization decide what the parameter shows as value and error afterwards.
\<close>

definition relimit ::
  "engine \<Rightarrow> pyfloat option \<Rightarrow> pyfloat option \<Rightarrow> minuit_parameter \<Rightarrow> minuit_parameter" where
  "relimit E lo hi p =
     p\<lparr>p_lower := lo, p_upper := hi,
       p_value := value_after_limit E lo hi (p_value p),
       p_error := error_after_limit E lo hi (p_error p)\<rparr>"

text \<open>Modelled from the spec: the one-sided-lower transform.\<close>

definition SetLowerLimit :: "engine \<Rightarrow> string \<Rightarrow> pyfloat \<Rightarrow> upstate \<Rightarrow> upstate" where
  "SetLowerLimit E v lo = on_param v (relimit E (Some lo) None)"

text \<open>Modelled from the spec: the one-sided-upper transform.\<close>

definition SetUpperLimit :: "engine \<Rightarrow> string \<Rightarrow> pyfloat \<Rightarrow> upstate \<Rightarrow> upstate" where
  "SetUpperLimit E v hi = on_param v (relimit E None (Some hi))"

text \<open>Modelled from the spec: the two-sided transform.\<close>

definition SetLimits :: "engine \<Rightarrow> string \<Rightarrow> pyfloat \<Rightarrow> pyfloat \<Rightarrow> upstate \<Rightarrow> upstate" where
  "SetLimits E v lo hi = on_param v (relimit E (Some lo) (Some hi))"

text \<open>Modelled from the spec: \<open>SetValue\<close> sets the externally visible value.\<close>

definition SetValue :: "string \<Rightarrow> real \<Rightarrow> upstate \<Rightarrow> upstate" where
  "SetValue v x = on_param v (\<lambda>p. p\<lparr>p_value := x\<rparr>)"

text \<open>Modelled from the spec: \<open>SetError\<close> sets the externally visible error.\<close>

definition SetError :: "string \<Rightarrow> real \<Rightarrow> upstate \<Rightarrow> upstate" where
  "SetError v e = on_param v (\<lambda>p. p\<lparr>p_error := e\<rparr>)"

text \<open>Modelled from the spec: \<open>Fix\<close> applies the fixed flag.\<close>

definition Fix :: "string \<Rightarrow> upstate \<Rightarrow> upstate" where
  "Fix v = on_param v (\<lambda>p. p\<lparr>p_fixed := True\<rparr>)"

text \<open>
  Modelled from the spec: \<open>Index(name)\<close>, the "position (stable integer index assigned
  at registration)" of the parameter of that name.
\<close>

fun Index :: "minuit_parameter list \<Rightarrow> string \<Rightarrow> nat" where
  "Index [] v = 0"
| "Index (p # ps) v = (if p_name p = v then 0 else Suc (Index ps v))"

subsection \<open>The session\<close>

text \<open>
  A keyword argument of the constructor. Keyword values are taken well typed for the
  key they stand under (a float for \<open>x\<close> and \<open>error_x\<close>, \<open>None\<close> or a pair for
  \<open>limit_x\<close>, a truth value for \<open>fix_x\<close>); the readers below take an entry of another
  kind as absent.
\<close>

datatype kwval = KFloat real | KLimit limit | KBool bool

type_synonym kwds = "(string \<times> kwval) list"

definition kw_float :: "kwds \<Rightarrow> string \<Rightarrow> real \<Rightarrow> real" where
  "kw_float kw k d = (case map_of kw k of Some (KFloat r) \<Rightarrow> r | _ \<Rightarrow> d)"

definition kw_limit :: "kwds \<Rightarrow> string \<Rightarrow> limit" where
  "kw_limit kw k = (case map_of kw k of Some (KLimit l) \<Rightarrow> l | _ \<Rightarrow> None)"

definition kw_bool :: "kwds \<Rightarrow> string \<Rightarrow> bool" where
  "kw_bool kw k = (case map_of kw k of Some (KBool b) \<Rightarrow> b | _ \<Rightarrow> False)"

text \<open>
  The user's objective: what \<open>fcn(*arg)\<close> gives, what \<open>describe(fcn)\<close> lists, and
  the value of \<open>fcn.default_errordef()\<close> when that attribute is callable.
\<close>

record objective =
  o_call :: "real list \<Rightarrow> error + real"
  o_describe :: "string list"
  o_default_errordef :: "real option"

text \<open>The helpers of \<open>iminuit.util\<close> that \<open>pedantic\<close> calls.\<close>

record util =
  param_name :: "string \<Rightarrow> string"
  extract_limit :: "kwds \<Rightarrow> string list"
  extract_fix :: "kwds \<Rightarrow> string list"
  extract_error :: "kwds \<Rightarrow> string list"

text \<open>
  The attributes of a \<open>Minuit\<close> object. The dictionaries \<open>initial_value\<close>,
  \<open>initial_error\<close>, \<open>initial_limit\<close> and \<open>initial_fix\<close> have the parameter names
  as keys and are only read at parameter names; they are functions here.
  \<open>merrors_struct\<close> keeps its items in order, as \<open>refreshInternalState\<close> iterates
  over them. \<open>direct_calls\<close> is not an attribute: it lists the argument vectors of the
  calls \<open>self.fcn(*arg)\<close> made so far, which do not go through the adapter.
\<close>

record session =
  fcn :: objective
  grad_fcn :: bool
  use_array_call :: bool
  var2pos :: "string \<rightharpoonup> nat"
  initial_value :: "string \<Rightarrow> real"
  initial_error :: "string \<Rightarrow> real"
  initial_limit :: "string \<Rightarrow> limit"
  initial_fix :: "string \<Rightarrow> bool"
  pyfcn :: "adapter option"
  minimizer :: "mnmigrad option"
  cfmin :: "fmin option"
  last_upst :: "upstate option"
  errordef :: real
  tol :: real
  strategy :: nat
  print_level :: int
  throw_nan :: bool
  parameters :: "string list"
  args :: "real list"
  values_d :: "string \<rightharpoonup> real"
  errors :: "string \<rightharpoonup> real"
  fval :: real
  ncalls :: nat
  edm :: real
  merrors :: "(string \<times> real) \<rightharpoonup> real"
  narg :: nat
  merrors_struct :: "(string \<times> minos_struct) list"
  diag :: "warning list"
  direct_calls :: "real list list"

definition warn :: "warning \<Rightarrow> session \<Rightarrow> session" where
  "warn w s = s\<lparr>diag := diag s @ [w]\<rparr>"

subsection \<open>The constructor (lines 187--388)\<close>

text \<open>\<open>_check_extra_args\<close> (lines 1535--1547): the first keyword that is no parameter
  name and no \<open>fix_\<close>, \<open>limit_\<close> or \<open>error_\<close> of one raises.\<close>

fun check_extra_args :: "string list \<Rightarrow> string list \<Rightarrow> error + unit" where
  "check_extra_args ps [] = Inr ()"
| "check_extra_args ps (k # ks) =
     (if k \<notin> set ps \<and> k \<notin> set (map (\<lambda>p. ''fix_'' @ p) ps)
         \<and> k \<notin> set (map (\<lambda>p. ''limit_'' @ p) ps)
         \<and> k \<notin> set (map (\<lambda>p. ''error_'' @ p) ps)
      then Inl (UnknownKeyword k ps)
      else check_extra_args ps ks)"

text \<open>\<open>pedantic\<close> (lines 1009--1029): warnings only.\<close>

definition pedantic :: "util \<Rightarrow> string list \<Rightarrow> kwds \<Rightarrow> warning list" where
  "pedantic U ps kw =
     concat (map (\<lambda>vn.
        (if vn \<notin> set (map fst kw) then [NoInitialValue vn] else []) @
        (if ''error_'' @ vn \<notin> set (map fst kw) \<and> ''fix_'' @ param_name U vn \<notin> set (map fst kw)
         then [NoInitialStep vn] else [])) ps) @
     concat (map (\<lambda>k. if param_name U k \<notin> set ps then [NoSuchParameter k (param_name U k)] else [])
        (extract_limit U kw @ extract_fix U kw @ extract_error U kw))"

text \<open>The keyword arguments of the constructor other than \<open>fcn\<close> and \<open>frontend\<close>.\<close>

record ctor_args =
  a_throw_nan :: bool
  a_pedantic :: bool
  a_forced_parameters :: "string list option"
  a_print_level :: int
  a_errordef :: "real option"
  a_grad_fcn :: bool
  a_use_array_call :: bool
  a_kwds :: kwds

definition init :: "util \<Rightarrow> objective \<Rightarrow> ctor_args \<Rightarrow> error + session" where
  "init U f a =
     (if a_use_array_call a \<and> a_forced_parameters a = None
      then Inl (KeyError ''use_array_call=True requires that forced_parameters is set'')
      else
        let ps = (case a_forced_parameters a of None \<Rightarrow> o_describe f | Some fp \<Rightarrow> fp);
            kw = a_kwds a
        in case check_extra_args ps (map fst kw) of
             Inl e \<Rightarrow> Inl e
           | Inr u \<Rightarrow>
               let iv = (\<lambda>x. kw_float kw x 0);
                   ie = (\<lambda>x. kw_float kw (''error_'' @ x) 1)
               in Inr
                 \<lparr>fcn = f,
                  grad_fcn = a_grad_fcn a,
                  use_array_call = a_use_array_call a,
                  var2pos = fold (\<lambda>(i, k) m. m(k \<mapsto> i)) (enumerate 0 ps) Map.empty,
                  initial_value = iv,
                  initial_error = ie,
                  initial_limit = (\<lambda>x. kw_limit kw (''limit_'' @ x)),
                  initial_fix = (\<lambda>x. kw_bool kw (''fix_'' @ x)),
                  pyfcn = None,
                  minimizer = None,
                  cfmin = None,
                  last_upst = None,
                  errordef =
                    (case a_errordef a of
                       Some e \<Rightarrow> e
                     | None \<Rightarrow> (case o_default_errordef f of Some e \<Rightarrow> e | None \<Rightarrow> 1)),
                  tol = 1 / 10,
                  strategy = 1,
                  print_level = a_print_level a,
                  throw_nan = a_throw_nan a,
                  parameters = ps,
                  args = map iv ps,
                  values_d = (\<lambda>k. if k \<in> set ps then Some (iv k) else None),
                  errors = (\<lambda>k. if k \<in> set ps then Some (ie k) else None),
                  fval = 0,
                  ncalls = 0,
                  edm = 1,
                  merrors = Map.empty,
                  narg = length ps,
                  merrors_struct = [],
                  diag =
                    (if a_pedantic a then pedantic U ps kw else []) @
                    (if a_errordef a = None \<and> o_default_errordef f = None \<and> a_pedantic a
                     then [ErrordefNotGiven] else []),
                  direct_calls = []\<rparr>)"

subsection \<open>\<open>initialParameterState\<close> (lines 1482--1520)\<close>

text \<open>The second loop: limits, then value and error again.\<close>

definition lb_of :: "pyfloat option \<Rightarrow> pyfloat" where
  "lb_of lb0 = (case lb0 of None \<Rightarrow> NegInf | Some x \<Rightarrow> x)"

definition ub_of :: "pyfloat option \<Rightarrow> pyfloat" where
  "ub_of ub0 = (case ub0 of None \<Rightarrow> PosInf | Some x \<Rightarrow> x)"

fun set_limits :: "engine \<Rightarrow> session \<Rightarrow> string list \<Rightarrow> upstate \<Rightarrow> error + upstate" where
  "set_limits E s [] ret = Inr ret"
| "set_limits E s (v # vs) ret =
     (case initial_limit s v of
        None \<Rightarrow> set_limits E s vs ret
      | Some (lb0, ub0) \<Rightarrow>
          let lb = lb_of lb0;
              ub = ub_of ub0
          in if pf_ge lb ub then Inl (InvalidLimit v lb ub)
             else
               let ret1 =
                     (if lb = NegInf \<and> ub = PosInf then ret
                      else if ub = PosInf then SetLowerLimit E v lb ret
                      else if lb = NegInf then SetUpperLimit E v ub ret
                      else SetLimits E v lb ub ret)
               in set_limits E s vs
                    (SetError v (initial_error s v) (SetValue v (initial_value s v) ret1)))"

definition initialParameterState :: "engine \<Rightarrow> session \<Rightarrow> error + upstate" where
  "initialParameterState E s =
     (let ret = fold (\<lambda>v. Add v (initial_value s v) (initial_error s v)) (parameters s) new_state
      in case set_limits E s (parameters s) ret of
           Inl e \<Rightarrow> Inl e
         | Inr ret2 \<Rightarrow>
             Inr (fold (\<lambda>v st. if initial_fix s v then Fix v st else st) (parameters s) ret2))"

subsection \<open>Accessors\<close>

definition get_initial_param_states :: "engine \<Rightarrow> session \<Rightarrow> error + minuit_parameter list" where
  "get_initial_param_states E s =
     (case initialParameterState E s of Inl e \<Rightarrow> Inl e | Inr up \<Rightarrow> Inr (u_params up))"

definition get_param_states :: "engine \<Rightarrow> session \<Rightarrow> error + minuit_parameter list" where
  "get_param_states E s =
     (case last_upst s of
        None \<Rightarrow> get_initial_param_states E s
      | Some up \<Rightarrow> Inr (u_params up))"

definition get_fmin :: "session \<Rightarrow> fmin option" where
  "get_fmin s = cfmin s"

definition get_num_call_fcn :: "session \<Rightarrow> nat" where
  "get_num_call_fcn s = (case pyfcn s of None \<Rightarrow> 0 | Some f \<Rightarrow> f_ncall f)"

definition get_num_call_grad :: "session \<Rightarrow> nat" where
  "get_num_call_grad s =
     (case pyfcn s of None \<Rightarrow> 0 | Some f \<Rightarrow> if f_grad f then f_ngrad f else 0)"

definition list_of_fixed_param :: "session \<Rightarrow> string list" where
  "list_of_fixed_param s = filter (\<lambda>v. initial_fix s v) (parameters s)"

definition list_of_vary_param :: "session \<Rightarrow> string list" where
  "list_of_vary_param s = filter (\<lambda>v. \<not> initial_fix s v) (parameters s)"

definition is_clean_state :: "session \<Rightarrow> bool" where
  "is_clean_state s \<longleftrightarrow> pyfcn s = None \<and> minimizer s = None \<and> cfmin s = None"

text \<open>\<open>construct_FCN\<close> (lines 971--988).\<close>

definition construct_FCN :: "session \<Rightarrow> session" where
  "construct_FCN s =
     s\<lparr>pyfcn := Some
        \<lparr>f_up = errordef s, f_ncall = 0, f_ngrad = 0, f_grad = grad_fcn s,
         f_array_call = use_array_call s, f_names = parameters s,
         f_throw_nan = throw_nan s\<rparr>\<rparr>"

text \<open>The engine's own calls of the objective and the gradient, counted by the adapter.\<close>

definition charge :: "nat \<Rightarrow> nat \<Rightarrow> session \<Rightarrow> session" where
  "charge n g s =
     s\<lparr>pyfcn := map_option (\<lambda>f. f\<lparr>f_ncall := f_ncall f + n, f_ngrad := f_ngrad f + g\<rparr>) (pyfcn s)\<rparr>"

text \<open>\<open>self.pyfcn.SetErrorDef(up)\<close>.\<close>

definition SetErrorDef :: "real \<Rightarrow> session \<Rightarrow> session" where
  "SetErrorDef up s = s\<lparr>pyfcn := map_option (\<lambda>f. f\<lparr>f_up := up\<rparr>) (pyfcn s)\<rparr>"

subsection \<open>\<open>refreshInternalState\<close> (lines 1439--1480)\<close>

definition legacy_merrors :: "(string \<times> minos_struct) list \<Rightarrow> ((string \<times> real) \<rightharpoonup> real)" where
  "legacy_merrors items =
     fold (\<lambda>(k, v) m. m((k, - 1) \<mapsto> lower v)) items
       (fold (\<lambda>(k, v) m. m((k, 1) \<mapsto> upper v)) items Map.empty)"

definition refreshInternalState :: "session \<Rightarrow> session" where
  "refreshInternalState s =
     (let s1 =
        (case last_upst s of
           None \<Rightarrow> s
         | Some up \<Rightarrow>
             let mpv = u_params up in
             s\<lparr>values_d := fold (\<lambda>p m. m(p_name p \<mapsto> p_value p)) mpv Map.empty,
               errors := fold (\<lambda>p m. m(p_name p \<mapsto> p_error p)) mpv Map.empty,
               args := map p_value mpv,
               fval := u_fval up,
               ncalls := u_nfcn up,
               edm := u_edm up\<rparr>)
      in s1\<lparr>merrors := legacy_merrors (merrors_struct s1)\<rparr>)"

subsection \<open>\<open>migrad\<close> (lines 486--585)\<close>

text \<open>
  \<open>def migrad(self, int ncall=10000, resume=True, int nsplit=1, precision=None)\<close>: the
  two counts are C \<open>int\<close>s (32 bits, signed). A Python integer outside that range is
  refused with \<open>OverflowError\<close> when the arguments are converted, before the body
  runs.
\<close>

definition c_int :: "int \<Rightarrow> bool" where
  "c_int n \<longleftrightarrow> - 2147483648 \<le> n \<and> n \<le> 2147483647"

text \<open>
  \<open>round(1.0 * ncall / nsplit)\<close> for \<open>nsplit \<noteq> 0\<close>: Python 3 rounds to the nearest
  integer and a tie to the even one. \<open>n div d\<close> is the floor of the quotient and
  \<open>n mod d\<close> has the sign of \<open>d\<close>, so \<open>\<bar>n mod d\<bar> / \<bar>d\<bar>\<close> is the fractional part.
  Both arguments are C \<open>int\<close>s: the quotient in double precision is then within
  \<open>1 / (2\<^sup>2\<^sup>2 * \<bar>d\<bar>)\<close> of the exact one, which is a tie or at least
  \<open>1 / (2 * \<bar>d\<bar>)\<close> away from one, so it rounds as the exact one does.
\<close>

definition py_round :: "int \<Rightarrow> int \<Rightarrow> int" where
  "py_round n d =
     (let q = n div d; r = \<bar>n mod d\<bar>
      in if 2 * r < \<bar>d\<bar> then q
         else if \<bar>d\<bar> < 2 * r then q + 1
         else if even q then q else q + 1)"

text \<open>
  Lines 526--555: a fresh adapter and minimizer when \<open>resume\<close> is off or the session
  is clean, the print level, and the reset of the counters when \<open>resume\<close> is off.
\<close>

definition migrad_setup :: "engine \<Rightarrow> bool \<Rightarrow> session \<Rightarrow> (error + unit) \<times> session" where
  "migrad_setup E resume s =
     (case (if \<not> resume \<or> is_clean_state s
            then (let s1 = construct_FCN s in
                  case initialParameterState E s1 of
                    Inl e \<Rightarrow> (Inl e, s1)
                  | Inr ups \<Rightarrow>
                      (Inr (),
                       s1\<lparr>minimizer := Some
                          \<lparr>m_state = ups, m_strategy = strategy s1, m_print_level = 0,
                           m_precision = None\<rparr>\<rparr>))
            else (Inr (), s)) of
        (Inl e, s1) \<Rightarrow> (Inl e, s1)
      | (Inr u, s1) \<Rightarrow>
          (case minimizer s1 of
             None \<Rightarrow> (Inl NullPointer, s1)
           | Some m \<Rightarrow>
               let s2 = s1\<lparr>minimizer := Some (m\<lparr>m_print_level := print_level s1\<rparr>)\<rparr>
               in if \<not> resume
                  then (case pyfcn s2 of
                          None \<Rightarrow> (Inl NullPointer, s2)
                        | Some f \<Rightarrow>
                            (Inr (),
                             s2\<lparr>pyfcn := Some
                                (f\<lparr>f_ncall := 0,
                                   f_ngrad := (if f_grad f then 0 else f_ngrad f)\<rparr>)\<rparr>))
                  else (Inr (), s2)))"

text \<open>
  The loop of lines 568--576, \<open>while first or (not cfmin.IsValid() and totalcalls <
  ncall)\<close> with \<open>first\<close> set before it: the body runs, then the condition is read.
  The result lists the minimum of every sub-run. \<open>0 < ncall_round\<close> is what the
  assertion before the loop has established; the function repeats it to be total.
\<close>

function sub_runs ::
  "engine \<Rightarrow> int \<Rightarrow> int \<Rightarrow> int \<Rightarrow> session \<Rightarrow> (error + fmin list) \<times> session" where
  "sub_runs E ncall ncall_round totalcalls s =
     (case pyfcn s of
        None \<Rightarrow> (Inl NullPointer, s)
      | Some f \<Rightarrow>
          (case minimizer s of
             None \<Rightarrow> (Inl NullPointer, s)
           | Some m \<Rightarrow>
               (case run_migrad E f m ncall_round (tol s) of
                  (Inl e, n, g) \<Rightarrow> (Inl e, charge n g s)
                | (Inr (fm, m'), n, g) \<Rightarrow>
                    (if 0 < ncall_round \<and> \<not> fm_valid fm \<and> totalcalls + ncall_round < ncall
                     then (case sub_runs E ncall ncall_round (totalcalls + ncall_round)
                                  ((charge n g s)\<lparr>minimizer := Some m', cfmin := Some fm,
                                     last_upst := Some (fm_state fm)\<rparr>) of
                             (Inl e, s'') \<Rightarrow> (Inl e, s'')
                           | (Inr fms, s'') \<Rightarrow> (Inr (fm # fms), s''))
                     else (Inr [fm],
                           (charge n g s)\<lparr>minimizer := Some m', cfmin := Some fm,
                              last_upst := Some (fm_state fm)\<rparr>)))))"
  by pat_completeness auto
termination
  by (relation "measure (\<lambda>(E, ncall, ncall_round, totalcalls, s). nat (ncall - totalcalls))") auto

text \<open>
  \<open>migrad\<close> up to its \<open>return\<close>, with the minima of the sub-runs as result. The
  conversion of \<open>ncall\<close> and \<open>nsplit\<close> comes first.
\<close>

definition migrad_subruns ::
  "engine \<Rightarrow> int \<Rightarrow> bool \<Rightarrow> int \<Rightarrow> real option \<Rightarrow> session \<Rightarrow> (error + fmin list) \<times> session" where
  "migrad_subruns E ncall resume nsplit precision s =
     (if \<not> c_int ncall \<or> \<not> c_int nsplit then (Inl OverflowError, s)
      else
      case migrad_setup E resume s of
        (Inl e, s1) \<Rightarrow> (Inl e, s1)
      | (Inr u, s1) \<Rightarrow>
          if nsplit = 0 then (Inl ZeroDivisionError, s1)
          else if \<not> 0 < py_round ncall nsplit then (Inl AssertionError, s1)
          else
            let s2 = (case precision of
                        None \<Rightarrow> s1
                      | Some p \<Rightarrow>
                          s1\<lparr>minimizer :=
                               map_option (\<lambda>m. m\<lparr>m_precision := Some p\<rparr>) (minimizer s1)\<rparr>)
            in (case sub_runs E ncall (py_round ncall nsplit) 0 s2 of
                  (Inl e, s3) \<Rightarrow> (Inl e, s3)
                | (Inr fms, s3) \<Rightarrow>
                    (Inr fms,
                     refreshInternalState (s3\<lparr>last_upst := map_option fm_state (cfmin s3)\<rparr>))))"

definition migrad ::
  "engine \<Rightarrow> int \<Rightarrow> bool \<Rightarrow> int \<Rightarrow> real option \<Rightarrow> session
     \<Rightarrow> (error + fmin option \<times> minuit_parameter list) \<times> session" where
  "migrad E ncall resume nsplit precision s =
     (case migrad_subruns E ncall resume nsplit precision s of
        (Inl e, s') \<Rightarrow> (Inl e, s')
      | (Inr fms, s') \<Rightarrow>
          (case get_param_states E s' of
             Inl e \<Rightarrow> (Inl e, s')
           | Inr ps \<Rightarrow> (Inr (get_fmin s', ps), s')))"

subsection \<open>\<open>matrix\<close> (lines 703--737) and \<open>print_matrix\<close>\<close>

text \<open>An entry of the result: a number, or the NaN that \<open>sqrt\<close> gives below zero.\<close>

datatype cell = Num real | NaN

definition div_sqrt :: "real \<Rightarrow> real \<Rightarrow> error + cell" where
  "div_sqrt x d =
     (if d < 0 then Inr NaN
      else if d = 0 then Inl ZeroDivisionError
      else Inr (Num (x / sqrt d)))"

text \<open>The results of a comprehension, up to the first exception.\<close>

fun collect :: "(error + 'a) list \<Rightarrow> error + 'a list" where
  "collect [] = Inr []"
| "collect (x # xs) =
     (case x of
        Inl e \<Rightarrow> Inl e
      | Inr a \<Rightarrow> (case collect xs of Inl e \<Rightarrow> Inl e | Inr as \<Rightarrow> Inr (a # as)))"

text \<open>\<open>cov(i, j)\<close> and \<open>cor(i, j)\<close>, as defined under \<open>skip_fixed\<close> and without.\<close>

definition cov_cell ::
  "bool \<Rightarrow> minuit_parameter list \<Rightarrow> user_covariance \<Rightarrow> nat \<Rightarrow> nat \<Rightarrow> error + real" where
  "cov_cell skip_fixed mp mncov i j =
     (if skip_fixed then cov_get mncov i j
      else if p_fixed (mp ! i) \<or> p_fixed (mp ! j) then Inr 0
      else cov_get mncov i j)"

definition cor_cell ::
  "bool \<Rightarrow> minuit_parameter list \<Rightarrow> user_covariance \<Rightarrow> nat \<Rightarrow> nat \<Rightarrow> error + cell" where
  "cor_cell skip_fixed mp mncov i j =
     (if skip_fixed then
        (case cov_cell True mp mncov i j of
           Inl e \<Rightarrow> Inl e
         | Inr a \<Rightarrow>
             (case cov_cell True mp mncov i i of
                Inl e \<Rightarrow> Inl e
              | Inr b \<Rightarrow>
                  (case cov_cell True mp mncov j j of
                     Inl e \<Rightarrow> Inl e
                   | Inr c \<Rightarrow> div_sqrt a (b * c))))
      else if i = j then Inr (Num 1)
      else if p_fixed (mp ! i) \<or> p_fixed (mp ! j) then Inr (Num 0)
      else
        (case cov_get mncov i j of
           Inl e \<Rightarrow> Inl e
         | Inr a \<Rightarrow>
             (case cov_get mncov i i of
                Inl e \<Rightarrow> Inl e
              | Inr b \<Rightarrow>
                  (case cov_get mncov j j of
                     Inl e \<Rightarrow> Inl e
                   | Inr c \<Rightarrow> div_sqrt a (b * c)))))"

definition matrix :: "bool \<Rightarrow> bool \<Rightarrow> session \<Rightarrow> error + cell list list" where
  "matrix correlation skip_fixed s =
     (case last_upst s of
        None \<Rightarrow> Inl NoParameterState
      | Some up \<Rightarrow>
          (case u_cov up of
             None \<Rightarrow> Inl CovarianceNotValid
           | Some mncov \<Rightarrow>
               let mp = u_params up;
                   ind = (if skip_fixed
                          then filter (\<lambda>i. \<not> p_fixed (mp ! i)) [0..<length mp]
                          else [0..<length mp])
               in if correlation
                  then collect (map (\<lambda>j. collect (map (\<lambda>i. cor_cell skip_fixed mp mncov i j) ind)) ind)
                  else collect (map (\<lambda>j. collect (map (\<lambda>i.
                         (case cov_cell skip_fixed mp mncov i j of
                            Inl e \<Rightarrow> Inl e
                          | Inr x \<Rightarrow> Inr (Num x))) ind)) ind)))"

text \<open>\<open>print_matrix\<close> (lines 739--743) computes the correlation matrix for the frontend.\<close>

definition print_matrix :: "session \<Rightarrow> error + unit" where
  "print_matrix s = (case matrix True True s of Inl e \<Rightarrow> Inl e | Inr m \<Rightarrow> Inr ())"

subsection \<open>\<open>hesse\<close> (lines 587--635)\<close>

definition hesse ::
  "engine \<Rightarrow> nat \<Rightarrow> session \<Rightarrow> (error + minuit_parameter list) \<times> session" where
  "hesse E maxcall s =
     (case cfmin s of
        None \<Rightarrow> (Inl RunMigradFirst, s)
      | Some fm \<Rightarrow>
          (case pyfcn s of
             None \<Rightarrow> (Inl NullPointer, s)
           | Some f \<Rightarrow>
               (case run_hesse E f (fm_state fm) (strategy s) maxcall of
                  (Inl e, n, g) \<Rightarrow> (Inl e, charge n g s)
                | (Inr upst, n, g) \<Rightarrow>
                    let s1 = charge n g s;
                        s2 = (if u_cov upst = None then warn HesseFailedWarning s1 else s1);
                        s3 = refreshInternalState (s2\<lparr>last_upst := Some upst\<rparr>)
                    in if 0 < print_level s3
                       then (case print_matrix s3 of
                               Inl e \<Rightarrow> (Inl e, s3)
                             | Inr u \<Rightarrow> (Inr (u_params upst), s3))
                       else (Inr (u_params upst), s3))))"

subsection \<open>\<open>minos\<close> (lines 637--701)\<close>

text \<open>How the loop over \<open>varlist\<close> ends: it runs to its end, or \<open>return None\<close>.\<close>

datatype loop_exit = Completed | Returned

fun minos_loop ::
  "engine \<Rightarrow> fmin \<Rightarrow> string option \<Rightarrow> nat \<Rightarrow> string list \<Rightarrow> string list \<Rightarrow> session
     \<Rightarrow> (error + loop_exit) \<times> session" where
  "minos_loop E fm var maxcall fixed_param [] s = (Inr Completed, s)"
| "minos_loop E fm var maxcall fixed_param (vname # rest) s =
     (if vname \<in> set fixed_param
      then (if var \<noteq> None then (Inr Returned, warn MinosOnFixed s)
            else minos_loop E fm var maxcall fixed_param rest s)
      else
        (case pyfcn s of
           None \<Rightarrow> (Inl NullPointer, s)
         | Some f \<Rightarrow>
             (case run_minos E f fm (strategy s) (Index (u_params (fm_state fm)) vname) maxcall of
                (Inl e, n, g) \<Rightarrow> (Inl e, charge n g s)
              | (Inr mnerror, n, g) \<Rightarrow>
                  let s1 = charge n g s;
                      s2 = s1\<lparr>merrors_struct := AList.update vname mnerror (merrors_struct s1)\<rparr>
                  in minos_loop E fm var maxcall fixed_param rest s2)))"

definition minos ::
  "engine \<Rightarrow> string option \<Rightarrow> real \<Rightarrow> nat \<Rightarrow> session
     \<Rightarrow> (error + (string \<times> minos_struct) list option) \<times> session" where
  "minos E var sigma maxcall s =
     (case pyfcn s of
        None \<Rightarrow> (Inl MinosNeedsMinimum, s)
      | Some f \<Rightarrow>
          (case cfmin s of
             None \<Rightarrow> (Inl MinosNeedsMinimum, s)
           | Some fm \<Rightarrow>
               let oldup = f_up f;
                   s1 = SetErrorDef (oldup * sigma * sigma) s
               in if \<not> fm_valid fm then (Inl MinimumNotValid, s1)
                  else
                    (case (case var of
                             None \<Rightarrow> Inr (parameters s1)
                           | Some v \<Rightarrow>
                               if v \<notin> set (parameters s1)
                               then Inl (ParameterNotFound v (parameters s1))
                               else Inr [v]) of
                       Inl e \<Rightarrow> (Inl e, s1)
                     | Inr varlist \<Rightarrow>
                         (case minos_loop E fm var maxcall (list_of_fixed_param s1) varlist s1 of
                            (Inl e, s2) \<Rightarrow> (Inl e, s2)
                          | (Inr Returned, s2) \<Rightarrow> (Inr None, s2)
                          | (Inr Completed, s2) \<Rightarrow>
                              let s3 = SetErrorDef oldup (refreshInternalState s2)
                              in (Inr (Some (merrors_struct s3)), s3)))))"

subsection \<open>\<open>mncontour\<close> (lines 1290--1352)\<close>

definition mncontour ::
  "engine \<Rightarrow> string \<Rightarrow> string \<Rightarrow> int \<Rightarrow> real \<Rightarrow> session
     \<Rightarrow> (error + minos_struct \<times> minos_struct \<times> (real \<times> real) list) \<times> session" where
  "mncontour E x y numpoints sigma s =
     (case pyfcn s of
        None \<Rightarrow> (Inl ContourNeedsMigrad, s)
      | Some f \<Rightarrow>
          (case cfmin s of
             None \<Rightarrow> (Inl ContourNeedsMigrad, s)
           | Some fm \<Rightarrow>
               (case var2pos s x of
                  None \<Rightarrow> (Inl (KeyError x), s)
                | Some ix \<Rightarrow>
                    (case var2pos s y of
                       None \<Rightarrow> (Inl (KeyError y), s)
                     | Some iy \<Rightarrow>
                         if x \<notin> set (list_of_vary_param s) \<or> y \<notin> set (list_of_vary_param s)
                         then (Inl ContourOnFixed, s)
                         else
                           let oldup = f_up f;
                               s1 = SetErrorDef (oldup * sigma * sigma) s
                           in (case run_contour E (f\<lparr>f_up := oldup * sigma * sigma\<rparr>) fm
                                      (strategy s) ix iy numpoints of
                                 (Inl e, n, g) \<Rightarrow> (Inl e, charge n g s1)
                               | (Inr cerr, n, g) \<Rightarrow>
                                   let s2 = SetErrorDef oldup (charge n g s1)
                                   in (Inr (x_minos cerr, y_minos cerr, points cerr), s2))))))"

subsection \<open>\<open>profile\<close> (lines 1129--1177)\<close>

text \<open>The argument \<open>bound\<close>: a number of standard deviations, or a pair.\<close>

datatype bound = NSigma real | Interval real real

text \<open>
  \<open>numpy.linspace(lo, hi, num)\<close>: \<open>num\<close> samples from \<open>lo\<close> to \<open>hi\<close>, both
  included, in steps of \<open>(hi - lo) / (num - 1)\<close>; \<open>lo\<close> alone for one sample;
  a \<open>ValueError\<close> for a negative \<open>num\<close>.
\<close>

definition linspace :: "real \<Rightarrow> real \<Rightarrow> int \<Rightarrow> error + real list" where
  "linspace lo hi num =
     (if num < 0 then Inl NegativeSamples
      else if num = 1 then Inr [lo]
      else Inr (map (\<lambda>i. lo + real i * ((hi - lo) / real (nat num - 1))) [0..<nat num]))"

text \<open>
  The loop of lines 1172--1174. \<open>arg\<close> is one list, written at \<open>pos\<close> before each
  call of \<open>self.fcn\<close>.
\<close>

fun profile_scan ::
  "nat \<Rightarrow> real list \<Rightarrow> real list \<Rightarrow> session \<Rightarrow> (error + real list) \<times> session" where
  "profile_scan pos [] arg s = (Inr [], s)"
| "profile_scan pos (x # xs) arg s =
     (if pos < length arg
      then
        (case o_call (fcn s) (arg[pos := x]) of
           Inl e \<Rightarrow> (Inl e, s\<lparr>direct_calls := direct_calls s @ [arg[pos := x]]\<rparr>)
         | Inr y \<Rightarrow>
             (case profile_scan pos xs (arg[pos := x])
                     (s\<lparr>direct_calls := direct_calls s @ [arg[pos := x]]\<rparr>) of
                (Inl e, s') \<Rightarrow> (Inl e, s')
              | (Inr ys, s') \<Rightarrow> (Inr (y # ys), s')))
      else (Inl IndexError, s))"

definition profile ::
  "string \<Rightarrow> int \<Rightarrow> bound \<Rightarrow> real list option \<Rightarrow> bool \<Rightarrow> session
     \<Rightarrow> (error + real list \<times> real list) \<times> session" where
  "profile vname bins bnd args0 subtract_min s =
     (if subtract_min \<and> cfmin s = None then (Inl SubtractNeedsMinimum, s)
      else
        (case (case bnd of
                 Interval lo hi \<Rightarrow> Inr (lo, hi)
               | NSigma k \<Rightarrow>
                   (case values_d s vname of
                      None \<Rightarrow> Inl (KeyError vname)
                    | Some start \<Rightarrow>
                        (case errors s vname of
                           None \<Rightarrow> Inl (KeyError vname)
                         | Some sigma \<Rightarrow> Inr (start - k * sigma, start + k * sigma)))) of
           Inl e \<Rightarrow> (Inl e, s)
         | Inr (lo, hi) \<Rightarrow>
             (case linspace lo hi bins of
                Inl e \<Rightarrow> (Inl e, s)
              | Inr val \<Rightarrow>
                  (case var2pos s vname of
                     None \<Rightarrow> (Inl (KeyError vname), s)
                   | Some pos \<Rightarrow>
                       (case profile_scan pos val
                               (case args0 of None \<Rightarrow> args s | Some a \<Rightarrow> a) s of
                          (Inl e, s') \<Rightarrow> (Inl e, s')
                        | (Inr result, s') \<Rightarrow>
                            (Inr (val,
                                  case cfmin s' of
                                    None \<Rightarrow> result
                                  | Some fm \<Rightarrow>
                                      if subtract_min then map (\<lambda>r. r - fm_fval fm) result
                                      else result),
                             s'))))))"

section \<open>Predicates and example data of the statements\<close>

text \<open>A limit that \<open>initialParameterState\<close> accepts.\<close>

definition valid_limit :: "limit \<Rightarrow> bool" where
  "valid_limit l =
     (case l of None \<Rightarrow> True | Some (lb0, ub0) \<Rightarrow> \<not> pf_ge (lb_of lb0) (ub_of ub0))"

text \<open>Every parameter of a state shows the value and the error the registry holds.\<close>

definition seeded :: "session \<Rightarrow> upstate \<Rightarrow> bool" where
  "seeded s st =
     list_all (\<lambda>p. p_value p = initial_value s (p_name p) \<and> p_error p = initial_error s (p_name p))
       (u_params st)"

text \<open>Every parameter of the name \<open>v\<close> carries the limits \<open>lo\<close> and \<open>hi\<close>.\<close>

definition limited :: "string \<Rightarrow> pyfloat option \<Rightarrow> pyfloat option \<Rightarrow> upstate \<Rightarrow> bool" where
  "limited v lo hi st =
     list_all (\<lambda>p. p_name p = v \<longrightarrow> p_lower p = lo \<and> p_upper p = hi) (u_params st)"

text \<open>The engine's MIGRAD never raises.\<close>

definition engine_returns :: "engine \<Rightarrow> bool" where
  "engine_returns E = (\<forall>f m n t. \<exists>r k g. run_migrad E f m n t = (Inr r, k, g))"

text \<open>What a run of the engine leaves of the adapter: its calls are counted.\<close>

definition charged :: "nat \<Rightarrow> nat \<Rightarrow> adapter \<Rightarrow> adapter" where
  "charged n g f = f\<lparr>f_ncall := f_ncall f + n, f_ngrad := f_ngrad f + g\<rparr>"

text \<open>
  The adapter and the minimizer after \<open>k\<close> sub-runs of budget \<open>r\<close> and tolerance
  \<open>t\<close>, each one run by the engine on what the one before has left; and the sub-run
  number \<open>i + 1\<close>, the engine's run on what \<open>i\<close> sub-runs have left.
\<close>

fun after_sub_runs ::
  "engine \<Rightarrow> int \<Rightarrow> real \<Rightarrow> nat \<Rightarrow> adapter \<Rightarrow> mnmigrad \<Rightarrow> adapter \<times> mnmigrad" where
  "after_sub_runs E r t 0 f m = (f, m)"
| "after_sub_runs E r t (Suc k) f m =
     (case run_migrad E f m r t of
        (Inl e, n, g) \<Rightarrow> (charged n g f, m)
      | (Inr (x, m'), n, g) \<Rightarrow> after_sub_runs E r t k (charged n g f) m')"

definition sub_run ::
  "engine \<Rightarrow> int \<Rightarrow> real \<Rightarrow> nat \<Rightarrow> adapter \<Rightarrow> mnmigrad \<Rightarrow> (fmin \<times> mnmigrad) engine_call" where
  "sub_run E r t i f m =
     run_migrad E (fst (after_sub_runs E r t i f m)) (snd (after_sub_runs E r t i f m)) r t"

text \<open>\<open>SetPrecision(precision)\<close> when a precision is given.\<close>

definition with_precision :: "real option \<Rightarrow> mnmigrad \<Rightarrow> mnmigrad" where
  "with_precision precision m =
     (case precision of None \<Rightarrow> m | Some p \<Rightarrow> m\<lparr>m_precision := Some p\<rparr>)"

text \<open>The engine's MINOS never raises.\<close>

definition minos_returns :: "engine \<Rightarrow> bool" where
  "minos_returns E = (\<forall>f fm k i n. \<exists>r a b. run_minos E f fm k i n = (Inr r, a, b))"

text \<open>\<open>merrors_struct\<close> is a dictionary: no key occurs twice.\<close>

definition dict_ok :: "session \<Rightarrow> bool" where
  "dict_ok s = distinct (map fst (merrors_struct s))"

text \<open>
  The legacy view \<open>merrors\<close> agrees with the records: the keys \<open>(k, 1.0)\<close> and
  \<open>(k, -1.0)\<close> of every parameter with a record hold its upper and its lower offset,
  and there is no other key.
\<close>

definition merrors_consistent :: "session \<Rightarrow> bool" where
  "merrors_consistent s =
     ((\<forall>k r. map_of (merrors_struct s) k = Some r \<longrightarrow>
          merrors s (k, 1) = Some (upper r) \<and> merrors s (k, - 1) = Some (lower r)) \<and>
      (\<forall>k x. merrors s (k, x) \<noteq> None \<longrightarrow>
          (x = 1 \<or> x = - 1) \<and> map_of (merrors_struct s) k \<noteq> None))"

text \<open>A keyword the constructor understands, for the parameter names \<open>ps\<close>.\<close>

definition known_keyword :: "string list \<Rightarrow> string \<Rightarrow> bool" where
  "known_keyword ps k =
     (k \<in> set ps \<or> k \<in> set (map (\<lambda>p. ''fix_'' @ p) ps) \<or>
      k \<in> set (map (\<lambda>p. ''limit_'' @ p) ps) \<or> k \<in> set (map (\<lambda>p. ''error_'' @ p) ps))"

subsection \<open>Example data\<close>

text \<open>
  The objective of the end-to-end tests, \<open>f(a, b) = (a - 2)\<^sup>2 + (b - 3)\<^sup>2\<close>; it raises
  when it is not given two arguments.
\<close>

definition demo_objective :: objective where
  "demo_objective =
     \<lparr>o_call = (\<lambda>xs. case xs of
                   [a, b] \<Rightarrow> Inr ((a - 2) * (a - 2) + (b - 3) * (b - 3))
                 | _ \<Rightarrow> Inl (ObjectiveRaised ''TypeError'')),
      o_describe = [''a'', ''b''],
      o_default_errordef = None\<rparr>"

definition demo_util :: util where
  "demo_util =
     \<lparr>param_name = (\<lambda>k. k), extract_limit = (\<lambda>kw. []), extract_fix = (\<lambda>kw. []),
      extract_error = (\<lambda>kw. [])\<rparr>"

text \<open>
  An engine for the examples. Setting a limit makes the state show the value 0;
  MIGRAD moves every parameter that is not fixed to 2, reports a valid minimum and a
  covariance over the parameters that are not fixed (4 on the diagonal, 1 elsewhere),
  after 24 calls; HESSE gives the state back without
  a covariance; MINOS gives the offsets -1 and 1; the contour tracer raises.
\<close>

definition demo_minimum :: "upstate \<Rightarrow> upstate" where
  "demo_minimum st =
     st\<lparr>u_params := map (\<lambda>p. if p_fixed p then p else p\<lparr>p_value := 2\<rparr>) (u_params st),
        u_cov := Some \<lparr>c_nrow = length (filter (\<lambda>p. \<not> p_fixed p) (u_params st)),
                        c_data = (\<lambda>i j. if i = j then 4 else 1)\<rparr>,
        u_nfcn := 24\<rparr>"

definition demo_minos_error :: minos_struct where
  "demo_minos_error =
     \<lparr>lower = - 1, upper = 1, is_valid = True, at_lower_limit = False, at_upper_limit = False,
      at_lower_max_fcn = False, at_upper_max_fcn = False, lower_new_min = False,
      upper_new_min = False\<rparr>"

definition demo_engine :: engine where
  "demo_engine =
     \<lparr>value_after_limit = (\<lambda>lo hi v. 0),
      error_after_limit = (\<lambda>lo hi e. e),
      run_migrad = (\<lambda>f m n t.
         (Inr (\<lparr>fm_valid = True, fm_fval = 0, fm_state = demo_minimum (m_state m)\<rparr>,
               m\<lparr>m_state := demo_minimum (m_state m)\<rparr>), 24, 0)),
      run_hesse = (\<lambda>f st k n. (Inr (st\<lparr>u_cov := None\<rparr>), 5, 0)),
      run_minos = (\<lambda>f fm k i n. (Inr demo_minos_error, 7, 0)),
      run_contour = (\<lambda>f fm k i j n. (Inl (ObjectiveRaised ''stop''), 3, 0))\<rparr>"

text \<open>Constructor arguments: only the keywords differ between the examples.\<close>

definition demo_args :: "kwds \<Rightarrow> ctor_args" where
  "demo_args kw =
     \<lparr>a_throw_nan = False, a_pedantic = False, a_forced_parameters = None, a_print_level = 0,
      a_errordef = Some 1, a_grad_fcn = False, a_use_array_call = False, a_kwds = kw\<rparr>"

text \<open>
  An engine whose MIGRAD reports an invalid minimum on its first run and a valid one
  when it is run again from the state it has reached.
\<close>

definition slow_engine :: engine where
  "slow_engine =
     demo_engine\<lparr>run_migrad := (\<lambda>f m n t.
        (Inr (\<lparr>fm_valid = (u_nfcn (m_state m) \<noteq> 0), fm_fval = 0,
               fm_state = demo_minimum (m_state m)\<rparr>,
              m\<lparr>m_state := demo_minimum (m_state m)\<rparr>), 24, 0))\<rparr>"

text \<open>
  The example engine with a MIGRAD that spends 24 calls in every sub-run and never
  reaches a valid minimum.
\<close>

definition stalled_engine :: engine where
  "stalled_engine =
     demo_engine\<lparr>run_migrad := (\<lambda>f m n t.
        (Inr (\<lparr>fm_valid = False, fm_fval = 0, fm_state = demo_minimum (m_state m)\<rparr>,
              m\<lparr>m_state := demo_minimum (m_state m)\<rparr>), 24, 0))\<rparr>"

text \<open>
  The session the constructor builds for the example objective, and the session after
  one \<open>migrad()\<close> on it.
\<close>

definition demo_session :: "kwds \<Rightarrow> session" where
  "demo_session kw = projr (init demo_util demo_objective (demo_args kw))"

definition demo_fitted :: "kwds \<Rightarrow> session" where
  "demo_fitted kw = snd (migrad demo_engine 10000 True 1 None (demo_session kw))"

text \<open>The example engine with a MINOS whose scan raises.\<close>

definition raising_engine :: engine where
  "raising_engine =
     demo_engine\<lparr>run_minos := (\<lambda>f fm k i n. (Inl (ObjectiveRaised ''stop''), 3, 0))\<rparr>"

text \<open>The session after one \<open>migrad()\<close> that ends with an invalid minimum.\<close>

definition demo_unconverged :: session where
  "demo_unconverged = snd (migrad slow_engine 10000 True 1 None (demo_session []))"

text \<open>
  An objective of three parameters, \<open>f(a, b, c) = (a - 2)\<^sup>2 + (b - 3)\<^sup>2 + c\<^sup>2\<close>, and
  the example engine with a MINOS that scans the first parameter and raises in the scan
  of every other one, as it does when the objective raises there.
\<close>

definition demo3_objective :: objective where
  "demo3_objective =
     \<lparr>o_call = (\<lambda>xs. case xs of
                   [a, b, c] \<Rightarrow> Inr ((a - 2) * (a - 2) + (b - 3) * (b - 3) + c * c)
                 | _ \<Rightarrow> Inl (ObjectiveRaised ''TypeError'')),
      o_describe = [''a'', ''b'', ''c''],
      o_default_errordef = None\<rparr>"

definition faltering_engine :: engine where
  "faltering_engine =
     demo_engine\<lparr>run_minos := (\<lambda>f fm k i n.
        if i = 0 then (Inr demo_minos_error, 7, 0) else (Inl (ObjectiveRaised ''stop''), 3, 0))\<rparr>"

text \<open>
  \<open>m = Minuit(f, fix_c=True)\<close> after \<open>m.migrad()\<close>, and after the \<open>m.minos()\<close> that
  follows it.
\<close>

definition demo3_fitted :: session where
  "demo3_fitted =
     snd (migrad faltering_engine 10000 True 1 None
            (projr (init demo_util demo3_objective (demo_args [(''fix_c'', KBool True)]))))"

definition demo3_scanned :: session where
  "demo3_scanned = snd (minos faltering_engine None 1 1000 demo3_fitted)"

section \<open>The initial parameter state\<close>

lemma names_on_param:
  "(\<And>p. p_name (g p) = p_name p) \<Longrightarrow>
     map p_name (u_params (on_param v g st)) = map p_name (u_params st)"
  by (simp add: on_param_def)

lemma names_relimit [simp]: "p_name (relimit E lo hi p) = p_name p"
  by (simp add: relimit_def)

lemma names_ops [simp]:
  "map p_name (u_params (SetLowerLimit E v lo st)) = map p_name (u_params st)"
  "map p_name (u_params (SetUpperLimit E v hi st)) = map p_name (u_params st)"
  "map p_name (u_params (SetLimits E v lo hi st)) = map p_name (u_params st)"
  "map p_name (u_params (SetValue v x st)) = map p_name (u_params st)"
  "map p_name (u_params (SetError v e st)) = map p_name (u_params st)"
  "map p_name (u_params (Fix v st)) = map p_name (u_params st)"
  by (simp_all add: SetLowerLimit_def SetUpperLimit_def SetLimits_def SetValue_def SetError_def
        Fix_def names_on_param)

lemma names_add_fold:
  "map p_name (u_params (fold (\<lambda>v. Add v (a v) (b v)) vs st)) = map p_name (u_params st) @ vs"
  by (induction vs arbitrary: st) (simp_all add: Add_def)

lemma seeded_add_fold:
  "seeded s st \<Longrightarrow> seeded s (fold (\<lambda>v. Add v (initial_value s v) (initial_error s v)) vs st)"
  by (induction vs arbitrary: st) (simp_all add: Add_def seeded_def)

lemma seeded_reset:
  assumes "\<And>p. p_name (g p) = p_name p" and "seeded s st"
  shows "seeded s (SetError v (initial_error s v) (SetValue v (initial_value s v) (on_param v g st)))"
  using assms by (auto simp: seeded_def SetError_def SetValue_def on_param_def list_all_iff)

lemma seeded_reset_id:
  "seeded s st \<Longrightarrow> seeded s (SetError v (initial_error s v) (SetValue v (initial_value s v) st))"
  by (auto simp: seeded_def SetError_def SetValue_def on_param_def list_all_iff)

lemma seeded_fix: "seeded s st \<Longrightarrow> seeded s (Fix v st)"
  by (auto simp: seeded_def Fix_def on_param_def list_all_iff)

lemma seeded_fix_fold:
  "seeded s st \<Longrightarrow> seeded s (fold (\<lambda>v st. if c v then Fix v st else st) vs st)"
  by (induction vs arbitrary: st) (simp_all add: seeded_fix)

lemma names_fix_fold:
  "map p_name (u_params (fold (\<lambda>v st. if c v then Fix v st else st) vs st)) = map p_name (u_params st)"
  by (induction vs arbitrary: st) simp_all

lemma set_limits_seeded:
  "seeded s ret \<Longrightarrow> set_limits E s vs ret = Inr ret' \<Longrightarrow> seeded s ret'"
proof (induction vs arbitrary: ret)
  case Nil
  then show ?case by simp
next
  case (Cons v vs)
  show ?case
  proof (cases "initial_limit s v")
    case None
    with Cons show ?thesis by simp
  next
    case (Some l)
    obtain lb0 ub0 where l: "l = (lb0, ub0)" by (cases l)
    from Cons.prems(2) Some l have ok: "\<not> pf_ge (lb_of lb0) (ub_of ub0)"
      by (auto simp: Let_def split: if_splits)
    let ?r1 = "(if lb_of lb0 = NegInf \<and> ub_of ub0 = PosInf then ret
                else if ub_of ub0 = PosInf then SetLowerLimit E v (lb_of lb0) ret
                else if lb_of lb0 = NegInf then SetUpperLimit E v (ub_of ub0) ret
                else SetLimits E v (lb_of lb0) (ub_of ub0) ret)"
    let ?r2 = "SetError v (initial_error s v) (SetValue v (initial_value s v) ?r1)"
    have "seeded s ?r2"
      using Cons.prems(1)
      by (auto simp: SetLowerLimit_def SetUpperLimit_def SetLimits_def
            intro: seeded_reset seeded_reset_id)
    moreover have "set_limits E s vs ?r2 = Inr ret'"
      using Cons.prems(2) Some l ok by (simp add: Let_def)
    ultimately show ?thesis by (rule Cons.IH)
  qed
qed

lemma set_limits_names:
  "set_limits E s vs ret = Inr ret' \<Longrightarrow> map p_name (u_params ret') = map p_name (u_params ret)"
proof (induction vs arbitrary: ret)
  case Nil
  then show ?case by simp
next
  case (Cons v vs)
  show ?case
  proof (cases "initial_limit s v")
    case None
    with Cons show ?thesis by simp
  next
    case (Some l)
    obtain lb0 ub0 where l: "l = (lb0, ub0)" by (cases l)
    from Cons.prems Some l have ok: "\<not> pf_ge (lb_of lb0) (ub_of ub0)"
      by (auto simp: Let_def split: if_splits)
    let ?r1 = "(if lb_of lb0 = NegInf \<and> ub_of ub0 = PosInf then ret
                else if ub_of ub0 = PosInf then SetLowerLimit E v (lb_of lb0) ret
                else if lb_of lb0 = NegInf then SetUpperLimit E v (ub_of ub0) ret
                else SetLimits E v (lb_of lb0) (ub_of ub0) ret)"
    let ?r2 = "SetError v (initial_error s v) (SetValue v (initial_value s v) ?r1)"
    have "set_limits E s vs ?r2 = Inr ret'"
      using Cons.prems Some l ok by (simp add: Let_def)
    from Cons.IH [OF this] show ?thesis by simp
  qed
qed

lemma set_limits_total:
  "\<forall>w\<in>set vs. valid_limit (initial_limit s w) \<Longrightarrow> \<exists>ret'. set_limits E s vs ret = Inr ret'"
proof (induction vs arbitrary: ret)
  case Nil
  then show ?case by simp
next
  case (Cons v vs)
  from Cons.prems have rest: "\<forall>w\<in>set vs. valid_limit (initial_limit s w)" by simp
  show ?case
  proof (cases "initial_limit s v")
    case None
    with Cons.IH [OF rest] show ?thesis by simp
  next
    case (Some l)
    obtain lb0 ub0 where l: "l = (lb0, ub0)" by (cases l)
    from Cons.prems Some l have "\<not> pf_ge (lb_of lb0) (ub_of ub0)"
      by (simp add: valid_limit_def)
    with Some l Cons.IH [OF rest] show ?thesis by (simp add: Let_def)
  qed
qed

text \<open>The loop stops at the first parameter whose limit is refused.\<close>

lemma set_limits_first_invalid:
  assumes "\<forall>w\<in>set pre. valid_limit (initial_limit s w)"
    and "initial_limit s v = Some (lb0, ub0)"
    and "pf_ge (lb_of lb0) (ub_of ub0)"
  shows "set_limits E s (pre @ v # post) ret = Inl (InvalidLimit v (lb_of lb0) (ub_of ub0))"
  using assms(1)
proof (induction pre arbitrary: ret)
  case Nil
  from assms(2,3) show ?case by (simp add: Let_def)
next
  case (Cons u pre)
  from Cons.prems have rest: "\<forall>w\<in>set pre. valid_limit (initial_limit s w)" by simp
  show ?case
  proof (cases "initial_limit s u")
    case None
    with Cons.IH [OF rest] show ?thesis by simp
  next
    case (Some l)
    obtain lb1 ub1 where l: "l = (lb1, ub1)" by (cases l)
    from Cons.prems Some l have "\<not> pf_ge (lb_of lb1) (ub_of ub1)"
      by (simp add: valid_limit_def)
    with Some l Cons.IH [OF rest] show ?thesis by (simp add: Let_def)
  qed
qed

lemma first_invalid_split:
  assumes "v \<in> set vs" and "\<not> valid_limit (initial_limit s v)"
  shows "\<exists>pre w post. vs = pre @ w # post \<and> (\<forall>u\<in>set pre. valid_limit (initial_limit s u))
           \<and> \<not> valid_limit (initial_limit s w)"
proof -
  from assms have "\<exists>x\<in>set vs. \<not> valid_limit (initial_limit s x)" by blast
  from split_list_first_prop [OF this] show ?thesis by blast
qed

lemma check_extra_args_err:
  "check_extra_args ps ks = Inl e \<Longrightarrow> \<exists>k. e = UnknownKeyword k ps"
  by (induction ks) (auto split: if_splits)

lemma init_never_InvalidLimit: "init U f a \<noteq> Inl (InvalidLimit w lb ub)"
proof (cases "a_use_array_call a \<and> a_forced_parameters a = None")
  case True
  then show ?thesis by (simp add: init_def)
next
  case False
  let ?ps = "case a_forced_parameters a of None \<Rightarrow> o_describe f | Some fp \<Rightarrow> fp"
  show ?thesis
  proof (cases "check_extra_args ?ps (map fst (a_kwds a))")
    case (Inl e)
    from check_extra_args_err [OF this] obtain k where "e = UnknownKeyword k ?ps" ..
    with Inl False show ?thesis by (simp add: init_def Let_def)
  next
    case (Inr u)
    with False show ?thesis by (simp add: init_def Let_def)
  qed
qed

lemma demo_check [simp]:
  "check_extra_args [''a'', ''b''] [''a'', ''limit_a''] = Inr ()"
  "check_extra_args [''a'', ''b''] [''limit_a''] = Inr ()"
  by simp_all


lemma initial_state_built:
  assumes "\<forall>w\<in>set (parameters s). valid_limit (initial_limit s w)"
  shows "\<exists>st. initialParameterState E s = Inr st \<and> map p_name (u_params st) = parameters s \<and>
           seeded s st"
proof -
  let ?r0 = "fold (\<lambda>v. Add v (initial_value s v) (initial_error s v)) (parameters s) new_state"
  have seeded0: "seeded s ?r0"
    by (rule seeded_add_fold) (simp add: seeded_def new_state_def)
  have names0: "map p_name (u_params ?r0) = parameters s"
    by (simp add: names_add_fold new_state_def)
  from set_limits_total [OF assms] obtain r1 where
    r1: "set_limits E s (parameters s) ?r0 = Inr r1" by blast
  define st where
    "st = fold (\<lambda>v st. if initial_fix s v then Fix v st else st) (parameters s) r1"
  have "initialParameterState E s = Inr st"
    using r1 by (simp add: initialParameterState_def st_def)
  moreover have "map p_name (u_params st) = parameters s"
    using set_limits_names [OF r1] names0 by (simp add: names_fix_fold st_def)
  moreover have "seeded s st"
    unfolding st_def by (rule seeded_fix_fold) (rule set_limits_seeded [OF seeded0 r1])
  ultimately show ?thesis by blast
qed

text \<open>The limits stay where the second loop has set them.\<close>

lemma list_all_map_same:
  "(\<And>p. Q (h p) = Q p) \<Longrightarrow> list_all Q (map h xs) = list_all Q xs"
  by (induction xs) simp_all

lemma limited_other:
  assumes "u \<noteq> v" and "\<And>p. p_name (g p) = p_name p"
  shows "limited v lo hi (on_param u g st) = limited v lo hi st"
  unfolding limited_def on_param_def using assms
  by (simp add: list_all_map_same)

lemma limited_keep:
  assumes "\<And>p. p_name (g p) = p_name p" and "\<And>p. p_lower (g p) = p_lower p"
    and "\<And>p. p_upper (g p) = p_upper p"
  shows "limited v lo hi (on_param u g st) = limited v lo hi st"
  unfolding limited_def on_param_def using assms
  by (simp add: list_all_map_same)

lemma list_all_map_all: "(\<And>p. Q (h p)) \<Longrightarrow> list_all Q (map h xs)"
  by (induction xs) simp_all

lemma limited_set:
  "limited v (Some lo) (Some hi) (SetError v e (SetValue v x (SetLimits E v lo hi st)))"
proof -
  let ?Q = "\<lambda>p. p_name p = v \<longrightarrow> p_lower p = Some lo \<and> p_upper p = Some hi"
  let ?h3 = "\<lambda>p. if p_name p = v then relimit E (Some lo) (Some hi) p else p"
  let ?h2 = "\<lambda>p. if p_name p = v then p\<lparr>p_value := x\<rparr> else p"
  let ?h1 = "\<lambda>p. if p_name p = v then p\<lparr>p_error := e\<rparr> else p"
  have "list_all ?Q (map (?h1 \<circ> (?h2 \<circ> ?h3)) (u_params st))"
    by (rule list_all_map_all) (simp add: relimit_def)
  then have "list_all ?Q (map ?h1 (map ?h2 (map ?h3 (u_params st))))"
    by (simp only: map_map)
  then show ?thesis
    by (simp add: limited_def SetError_def SetValue_def SetLimits_def on_param_def)
qed

lemma limited_fix_fold:
  "limited v lo hi (fold (\<lambda>w st. if c w then Fix w st else st) vs st) = limited v lo hi st"
  by (induction vs arbitrary: st) (simp_all add: Fix_def limited_keep)

lemma set_limits_limited:
  assumes "initial_limit s v = Some (Some (Fin lo), Some (Fin hi))"
  shows "set_limits E s vs ret = Inr ret' \<Longrightarrow>
           v \<in> set vs \<or> limited v (Some (Fin lo)) (Some (Fin hi)) ret \<Longrightarrow>
           limited v (Some (Fin lo)) (Some (Fin hi)) ret'"
proof (induction vs arbitrary: ret)
  case Nil
  then show ?case by simp
next
  case (Cons u vs)
  show ?case
  proof (cases "initial_limit s u")
    case None
    with assms have "u \<noteq> v" by auto
    with Cons.prems(2) have "v \<in> set vs \<or> limited v (Some (Fin lo)) (Some (Fin hi)) ret" by simp
    moreover from Cons.prems(1) None have "set_limits E s vs ret = Inr ret'" by simp
    ultimately show ?thesis by (rule Cons.IH [rotated])
  next
    case (Some l)
    obtain lb0 ub0 where l: "l = (lb0, ub0)" by (cases l)
    from Cons.prems(1) Some l have ok: "\<not> pf_ge (lb_of lb0) (ub_of ub0)"
      by (auto simp: Let_def split: if_splits)
    let ?r1 = "(if lb_of lb0 = NegInf \<and> ub_of ub0 = PosInf then ret
                else if ub_of ub0 = PosInf then SetLowerLimit E u (lb_of lb0) ret
                else if lb_of lb0 = NegInf then SetUpperLimit E u (ub_of ub0) ret
                else SetLimits E u (lb_of lb0) (ub_of ub0) ret)"
    let ?r2 = "SetError u (initial_error s u) (SetValue u (initial_value s u) ?r1)"
    have run: "set_limits E s vs ?r2 = Inr ret'"
      using Cons.prems(1) Some l ok by (simp add: Let_def)
    have "v \<in> set vs \<or> limited v (Some (Fin lo)) (Some (Fin hi)) ?r2"
    proof (cases "u = v")
      case True
      with assms Some l have "lb0 = Some (Fin lo)" "ub0 = Some (Fin hi)" by simp_all
      then have eq: "?r2 = SetError v (initial_error s v) (SetValue v (initial_value s v)
          (SetLimits E v (Fin lo) (Fin hi) ret))"
        using True by (simp add: lb_of_def ub_of_def)
      have "limited v (Some (Fin lo)) (Some (Fin hi)) ?r2"
        unfolding eq by (rule limited_set)
      then show ?thesis by (rule disjI2)
    next
      case False
      then have "limited v (Some (Fin lo)) (Some (Fin hi)) ?r2 =
          limited v (Some (Fin lo)) (Some (Fin hi)) ret"
        by (simp add: SetError_def SetValue_def SetLowerLimit_def SetUpperLimit_def SetLimits_def
              limited_other)
      with False Cons.prems(2) show ?thesis by auto
    qed
    with run show ?thesis by (rule Cons.IH)
  qed
qed

lemma initial_state_limited:
  assumes "initialParameterState E s = Inr st"
    and "v \<in> set (parameters s)"
    and "initial_limit s v = Some (Some (Fin lo), Some (Fin hi))"
  shows "limited v (Some (Fin lo)) (Some (Fin hi)) st"
proof -
  let ?r0 = "fold (\<lambda>v. Add v (initial_value s v) (initial_error s v)) (parameters s) new_state"
  from assms(1) obtain r1 where r1: "set_limits E s (parameters s) ?r0 = Inr r1"
    and st: "st = fold (\<lambda>v st. if initial_fix s v then Fix v st else st) (parameters s) r1"
    by (auto simp: initialParameterState_def split: sum.splits)
  from assms(2) have "v \<in> set (parameters s) \<or> limited v (Some (Fin lo)) (Some (Fin hi)) ?r0"
    by simp
  with r1 have "limited v (Some (Fin lo)) (Some (Fin hi)) r1"
    by (rule set_limits_limited [OF assms(3)])
  then show ?thesis by (simp add: st limited_fix_fold)
qed

text \<open>
  Why value and error are set again: once the limit is set and before they are, the
  state shows what the reparameterization has made of the value, here 0 for the value
  1 that was supplied.
\<close>

lemma value_after_SetLimits:
  "map p_value (u_params (SetLimits demo_engine ''a'' (Fin 0) (Fin 4) (Add ''a'' 1 1 new_state))) = [0] \<and>
   map p_value (u_params (SetValue ''a'' 1
      (SetLimits demo_engine ''a'' (Fin 0) (Fin 4) (Add ''a'' 1 1 new_state)))) = [1]"
  by (simp add: SetLimits_def SetValue_def relimit_def on_param_def Add_def new_state_def
        demo_engine_def)

text \<open>
  C7. For every registered parameter with a two-sided limit \<open>(lo, hi)\<close>, \<open>lo < hi\<close>,
  and an initial value strictly inside it, the initial engine state is built (no limit
  of another parameter being refused), the parameter carries the limits \<open>lo\<close> and
  \<open>hi\<close> in it at every position it has, and the value and the error read from it
  there are the initial value and error supplied, whatever the bounded
  reparameterization (\<open>value_after_limit\<close>, \<open>error_after_limit\<close> of the engine) made
  of them when the limit was set: value and error are set again after the limit.
\<close>

theorem initial_state_roundtrip:
  assumes "v \<in> set (parameters s)"
    and "initial_limit s v = Some (Some (Fin lo), Some (Fin hi))"
    and "lo < hi"
    and "lo < initial_value s v" and "initial_value s v < hi"
    and "\<forall>w\<in>set (parameters s). w \<noteq> v \<longrightarrow> valid_limit (initial_limit s w)"
  shows "\<exists>ps. get_initial_param_states E s = Inr ps \<and> map p_name ps = parameters s \<and>
           (\<forall>i<length ps. parameters s ! i = v \<longrightarrow>
              p_lower (ps ! i) = Some (Fin lo) \<and> p_upper (ps ! i) = Some (Fin hi) \<and>
              p_value (ps ! i) = initial_value s v \<and> p_error (ps ! i) = initial_error s v)"
proof -
  from assms(2,3) have "valid_limit (initial_limit s v)"
    by (simp add: valid_limit_def lb_of_def ub_of_def)
  have valid: "\<forall>w\<in>set (parameters s). valid_limit (initial_limit s w)"
  proof (rule ballI)
    fix w
    assume w: "w \<in> set (parameters s)"
    show "valid_limit (initial_limit s w)"
    proof (cases "w = v")
      case True
      with \<open>valid_limit (initial_limit s v)\<close> show ?thesis by simp
    next
      case False
      from assms(6) w have "w \<noteq> v \<longrightarrow> valid_limit (initial_limit s w)" by (rule bspec)
      with False show ?thesis by simp
    qed
  qed
  from initial_state_built [OF valid, of E] obtain st where
    st: "initialParameterState E s = Inr st" and names: "map p_name (u_params st) = parameters s"
    and sd: "seeded s st" by (elim exE conjE) (rule that)
  define ps where "ps = u_params st"
  have built: "get_initial_param_states E s = Inr ps"
    using st by (simp add: get_initial_param_states_def ps_def)
  have names2: "map p_name ps = parameters s"
    using names by (simp add: ps_def)
  from sd have all: "\<forall>p\<in>set ps.
      p_value p = initial_value s (p_name p) \<and> p_error p = initial_error s (p_name p)"
    by (simp add: seeded_def list_all_iff ps_def)
  from initial_state_limited [OF st assms(1,2)] have lim: "\<forall>p\<in>set ps.
      p_name p = v \<longrightarrow> p_lower p = Some (Fin lo) \<and> p_upper p = Some (Fin hi)"
    by (simp add: limited_def list_all_iff ps_def)
  have at: "p_lower (ps ! i) = Some (Fin lo) \<and> p_upper (ps ! i) = Some (Fin hi) \<and>
      p_value (ps ! i) = initial_value s v \<and> p_error (ps ! i) = initial_error s v"
    if "i < length ps" and "parameters s ! i = v" for i
  proof -
    from that(1) have "p_name (ps ! i) = map p_name ps ! i" by simp
    with names2 that(2) have n: "p_name (ps ! i) = v" by simp
    from that(1) have mem: "ps ! i \<in> set ps" by simp
    from all mem have "p_value (ps ! i) = initial_value s (p_name (ps ! i)) \<and>
        p_error (ps ! i) = initial_error s (p_name (ps ! i))" by (rule bspec)
    then have a: "p_value (ps ! i) = initial_value s v \<and> p_error (ps ! i) = initial_error s v"
      by (simp only: n)
    from lim mem have "p_name (ps ! i) = v \<longrightarrow>
        p_lower (ps ! i) = Some (Fin lo) \<and> p_upper (ps ! i) = Some (Fin hi)" by (rule bspec)
    with n have "p_lower (ps ! i) = Some (Fin lo) \<and> p_upper (ps ! i) = Some (Fin hi)"
      by simp
    with a show ?thesis by simp
  qed
  show ?thesis
    by (rule exI [of _ ps]) (simp add: built names2 at)
qed

theorem initial_state_roundtrip_witness:
  "\<exists>s ps. init demo_util demo_objective
            (demo_args [(''a'', KFloat 1), (''limit_a'', KLimit (Some (Some (Fin 0), Some (Fin 4))))]) = Inr s
     \<and> get_initial_param_states demo_engine s = Inr ps
     \<and> map p_name ps = [''a'', ''b''] \<and> p_value (ps ! 0) = 1
     \<and> p_lower (ps ! 0) = Some (Fin 0) \<and> p_upper (ps ! 0) = Some (Fin 4)"
proof -
  let ?kw = "[(''a'', KFloat 1), (''limit_a'', KLimit (Some (Some (Fin 0), Some (Fin 4))))]"
  obtain s where s: "init demo_util demo_objective (demo_args ?kw) = Inr s"
    and ps: "parameters s = [''a'', ''b'']"
    and iv: "initial_value s = (\<lambda>x. kw_float ?kw x 0)"
    and il: "initial_limit s = (\<lambda>x. kw_limit ?kw (''limit_'' @ x))"
    by (simp add: init_def demo_args_def demo_objective_def Let_def)
  have h1: "''a'' \<in> set (parameters s)" by (simp add: ps)
  have h2: "initial_limit s ''a'' = Some (Some (Fin 0), Some (Fin 4))"
    by (simp add: il kw_limit_def)
  have h3: "(0::real) < 4" by simp
  have h4: "0 < initial_value s ''a''" and h5: "initial_value s ''a'' < 4"
    by (simp_all add: iv kw_float_def)
  have h6: "\<forall>w\<in>set (parameters s). w \<noteq> ''a'' \<longrightarrow> valid_limit (initial_limit s w)"
    by (simp add: ps il kw_limit_def valid_limit_def lb_of_def ub_of_def)
  from initial_state_roundtrip [OF h1 h2 h3 h4 h5 h6, of demo_engine] obtain ps' where
    b: "get_initial_param_states demo_engine s = Inr ps'" and n: "map p_name ps' = parameters s"
    and a: "\<forall>i<length ps'. parameters s ! i = ''a'' \<longrightarrow>
        p_lower (ps' ! i) = Some (Fin 0) \<and> p_upper (ps' ! i) = Some (Fin 4) \<and>
        p_value (ps' ! i) = initial_value s ''a'' \<and> p_error (ps' ! i) = initial_error s ''a''"
    by (elim exE conjE) (rule that)
  from n have "length ps' = 2" using ps by (metis length_map length_Cons list.size(3) numeral_2_eq_2)
  with a ps have "p_lower (ps' ! 0) = Some (Fin 0) \<and> p_upper (ps' ! 0) = Some (Fin 4) \<and>
      p_value (ps' ! 0) = initial_value s ''a''" by simp
  with b n ps have r: "get_initial_param_states demo_engine s = Inr ps' \<and>
      map p_name ps' = [''a'', ''b''] \<and> p_value (ps' ! 0) = 1 \<and>
      p_lower (ps' ! 0) = Some (Fin 0) \<and> p_upper (ps' ! 0) = Some (Fin 4)"
    by (simp add: iv kw_float_def)
  show ?thesis
    by (rule exI [of _ s], rule exI [of _ ps']) (simp add: s r)
qed

text \<open>
  C3, as stated, fails: registering the limit \<open>(1, 1)\<close> for \<open>a\<close> does not fail. The
  constructor returns a session that holds the pair.
\<close>

theorem limit_registration_counterexample:
  "\<exists>s. init demo_util demo_objective
          (demo_args [(''limit_a'', KLimit (Some (Some (Fin 1), Some (Fin 1))))]) = Inr s
     \<and> initial_limit s ''a'' = Some (Some (Fin 1), Some (Fin 1))"
  by (simp add: init_def demo_args_def demo_objective_def Let_def kw_limit_def)

text \<open>
  C3, as the code has it. The constructor never raises the limit error: it stores the
  pair unchecked. When a parameter of the registry has a limit \<open>(lo, hi)\<close> with
  \<open>lo \<ge> hi\<close> (\<open>None\<close> read as minus or plus infinity), building the initial parameter
  state fails with the \<open>ValueError\<close> that names the first parameter, in registration
  order, whose limit is refused, together with its pair of bounds.
\<close>

theorem invalid_limit_rejected_at_build:
  assumes "v \<in> set (parameters s)"
    and "initial_limit s v = Some (lo0, hi0)"
    and "pf_ge (lb_of lo0) (ub_of hi0)"
  shows "init U f a \<noteq> Inl (InvalidLimit v (lb_of lo0) (ub_of hi0)) \<and>
         (\<exists>pre w post a0 b0.
            parameters s = pre @ w # post \<and>
            list_all (\<lambda>u. valid_limit (initial_limit s u)) pre \<and>
            initial_limit s w = Some (a0, b0) \<and> pf_ge (lb_of a0) (ub_of b0) \<and>
            initialParameterState E s = Inl (InvalidLimit w (lb_of a0) (ub_of b0)))"
proof -
  from assms(2,3) have "\<not> valid_limit (initial_limit s v)"
    by (simp add: valid_limit_def)
  from first_invalid_split [OF assms(1) this] obtain pre w post where
    parts: "parameters s = pre @ w # post"
    and pre: "\<forall>u\<in>set pre. valid_limit (initial_limit s u)"
    and w: "\<not> valid_limit (initial_limit s w)" by blast
  from w obtain a0 b0 where
    lim: "initial_limit s w = Some (a0, b0)" and bad: "pf_ge (lb_of a0) (ub_of b0)"
    by (auto simp: valid_limit_def split: option.splits)
  have "initialParameterState E s = Inl (InvalidLimit w (lb_of a0) (ub_of b0))"
    unfolding initialParameterState_def Let_def parts
    by (simp add: set_limits_first_invalid [OF pre lim bad])
  with parts pre lim bad show ?thesis
    by (auto simp: init_never_InvalidLimit list_all_iff)
qed

theorem invalid_limit_rejected_at_build_witness:
  "\<exists>s. init demo_util demo_objective
          (demo_args [(''limit_a'', KLimit (Some (Some (Fin 1), Some (Fin 1))))]) = Inr s
     \<and> initialParameterState demo_engine s = Inl (InvalidLimit ''a'' (Fin 1) (Fin 1))"
proof -
  let ?kw = "[(''limit_a'', KLimit (Some (Some (Fin 1), Some (Fin 1))))]"
  obtain s where s: "init demo_util demo_objective (demo_args ?kw) = Inr s"
    and ps: "parameters s = [''a'', ''b'']"
    and il: "initial_limit s = (\<lambda>x. kw_limit ?kw (''limit_'' @ x))"
    by (simp add: init_def demo_args_def demo_objective_def Let_def)
  have h1: "''a'' \<in> set (parameters s)" by (simp add: ps)
  have h2: "initial_limit s ''a'' = Some (Some (Fin 1), Some (Fin 1))"
    by (simp add: il kw_limit_def)
  have h3: "pf_ge (lb_of (Some (Fin 1))) (ub_of (Some (Fin 1)))"
    by (simp add: lb_of_def ub_of_def)
  from invalid_limit_rejected_at_build [OF h1 h2 h3, of demo_util demo_objective "demo_args ?kw" demo_engine]
  obtain pre w post a0 b0 where
    w: "parameters s = pre @ w # post" "initial_limit s w = Some (a0, b0)"
       "initialParameterState demo_engine s = Inl (InvalidLimit w (lb_of a0) (ub_of b0))"
    by blast
  from w(1) ps have "w = ''a'' \<or> w = ''b''"
    by (metis in_set_conv_decomp insert_iff list.simps(15) empty_iff empty_set)
  moreover have "initial_limit s ''b'' = None" by (simp add: il kw_limit_def)
  ultimately have "w = ''a''" using w(2) by auto
  with w(2) h2 have "a0 = Some (Fin 1)" "b0 = Some (Fin 1)" by auto
  with w(3) \<open>w = ''a''\<close>
  have r: "initialParameterState demo_engine s = Inl (InvalidLimit ''a'' (Fin 1) (Fin 1))"
    by (simp add: lb_of_def ub_of_def)
  show ?thesis
    by (rule exI [of _ s]) (simp add: s r)
qed

section \<open>The sub-runs of \<open>migrad\<close>\<close>

declare sub_runs.simps [simp del]

lemmas demo_defs = demo_session_def demo_fitted_def demo_unconverged_def demo_args_def
  demo_objective_def demo_engine_def slow_engine_def stalled_engine_def raising_engine_def
  demo_util_def
  demo_minimum_def demo_minos_error_def

lemmas demo3_defs = demo3_fitted_def demo3_objective_def faltering_engine_def

lemmas model_defs = init_def migrad_def migrad_subruns_def migrad_setup_def construct_FCN_def
  initialParameterState_def is_clean_state_def get_param_states_def get_fmin_def charge_def
  refreshInternalState_def legacy_merrors_def new_state_def Add_def Fix_def on_param_def
  py_round_def c_int_def kw_float_def kw_limit_def kw_bool_def Let_def

text \<open>
  The rounding: the result is a nearest integer of the quotient, and for a positive
  number of splits it is positive exactly when \<open>ncall / nsplit\<close> exceeds one half.
\<close>

lemma py_round_nearest:
  assumes "d \<noteq> 0"
  shows "\<bar>real_of_int (py_round n d) - real_of_int n / real_of_int d\<bar> \<le> 1 / 2"
proof -
  define q where "q = n div d"
  define r where "r = n mod d"
  have n: "n = d * q + r" by (simp add: q_def r_def)
  have frac: "real_of_int n / real_of_int d = real_of_int q + real_of_int r / real_of_int d"
    using assms by (simp add: n field_simps)
  have rd: "real_of_int r / real_of_int d = real_of_int \<bar>r\<bar> / real_of_int \<bar>d\<bar>"
  proof (cases "0 < d")
    case True
    then have "0 \<le> r" by (simp add: r_def)
    with True show ?thesis by simp
  next
    case False
    with assms have d: "d < 0" by simp
    then have "r \<le> 0" by (simp add: r_def)
    with d show ?thesis by simp
  qed
  have lt: "\<bar>r\<bar> < \<bar>d\<bar>" using assms by (simp add: r_def abs_mod_less)
  have dpos: "0 < real_of_int \<bar>d\<bar>" using assms by simp
  consider "2 * \<bar>r\<bar> < \<bar>d\<bar>" | "\<bar>d\<bar> < 2 * \<bar>r\<bar>" | "2 * \<bar>r\<bar> = \<bar>d\<bar>" by linarith
  then show ?thesis
  proof cases
    case 1
    then have "py_round n d = q" by (simp add: py_round_def q_def r_def Let_def)
    moreover from 1 have "2 * real_of_int \<bar>r\<bar> < real_of_int \<bar>d\<bar>" by linarith
    then have "real_of_int \<bar>r\<bar> / real_of_int \<bar>d\<bar> < 1 / 2" using dpos by (simp add: field_simps)
    moreover have "0 \<le> real_of_int \<bar>r\<bar> / real_of_int \<bar>d\<bar>" by simp
    ultimately show ?thesis unfolding frac rd by simp
  next
    case 2
    then have "py_round n d = q + 1" by (simp add: py_round_def q_def r_def Let_def)
    moreover from 2 have "real_of_int \<bar>d\<bar> < 2 * real_of_int \<bar>r\<bar>" by linarith
    then have "1 / 2 < real_of_int \<bar>r\<bar> / real_of_int \<bar>d\<bar>" using dpos by (simp add: field_simps)
    moreover from lt have "real_of_int \<bar>r\<bar> < real_of_int \<bar>d\<bar>" by linarith
    then have "real_of_int \<bar>r\<bar> / real_of_int \<bar>d\<bar> < 1" using dpos by (simp add: field_simps)
    ultimately show ?thesis unfolding frac rd by simp
  next
    case 3
    then have "py_round n d = q \<or> py_round n d = q + 1"
      by (simp add: py_round_def q_def r_def Let_def)
    moreover from 3 have "2 * real_of_int \<bar>r\<bar> = real_of_int \<bar>d\<bar>" by linarith
    then have "real_of_int \<bar>r\<bar> / real_of_int \<bar>d\<bar> = 1 / 2" using dpos by (simp add: field_simps)
    ultimately show ?thesis unfolding frac rd by auto
  qed
qed

lemma py_round_nonpositive:
  assumes "0 < d"
  shows "py_round n d \<le> 0 \<longleftrightarrow> 2 * n \<le> d"
proof -
  have r: "0 \<le> n mod d" "n mod d < d" using assms by simp_all
  have n: "n = d * (n div d) + n mod d" by simp
  show ?thesis
  proof (cases "n div d \<le> - 1")
    case True
    then have "d * (n div d) \<le> d * (- 1)" using assms by (intro mult_left_mono) simp_all
    with n r have "n < 0" by linarith
    moreover from True have "py_round n d \<le> 0"
      by (auto simp: py_round_def Let_def)
    ultimately show ?thesis using assms by simp
  next
    case False
    note nneg = this
    show ?thesis
    proof (cases "n div d = 0")
      case True
      with n have "n = n mod d" by simp
      with True r assms show ?thesis
        by (auto simp: py_round_def Let_def)
    next
      case False
      with nneg have "1 \<le> n div d" by simp
      then have "d * 1 \<le> d * (n div d)" using assms by (intro mult_left_mono) simp_all
      with n r have "d \<le> n" by linarith
      moreover from \<open>1 \<le> n div d\<close> have "0 < py_round n d"
        by (auto simp: py_round_def Let_def)
      ultimately show ?thesis using assms by simp
    qed
  qed
qed

lemma sub_runs_trace:
  "0 < r \<Longrightarrow> sub_runs E ncall r t s = (Inr fms, s') \<Longrightarrow>
     fms \<noteq> [] \<and> (\<forall>i<length fms. Suc i < length fms \<longleftrightarrow>
        (\<not> fm_valid (fms ! i) \<and> t + (int i + 1) * r < ncall))"
proof (induction E ncall r t s arbitrary: fms s' rule: sub_runs.induct)
  case (1 E ncall r t s)
  from "1.prems"(2) obtain f m where fm: "pyfcn s = Some f" "minimizer s = Some m"
    by (auto simp: sub_runs.simps [of E ncall r t s] split: option.splits)
  from "1.prems"(2) fm obtain fm0 m' n g where run: "run_migrad E f m r (tol s) = (Inr (fm0, m'), n, g)"
    by (auto simp: sub_runs.simps [of E ncall r t s] split: prod.splits sum.splits)
  let ?s1 = "(charge n g s)\<lparr>minimizer := Some m', cfmin := Some fm0, last_upst := Some (fm_state fm0)\<rparr>"
  show ?case
  proof (cases "\<not> fm_valid fm0 \<and> t + r < ncall")
    case False
    with "1.prems" fm run have "fms = [fm0]"
      by (auto simp: sub_runs.simps [of E ncall r t s])
    with False show ?thesis by auto
  next
    case True
    with "1.prems" fm run obtain rest where
      rest: "sub_runs E ncall r (t + r) ?s1 = (Inr rest, s')" and fms: "fms = fm0 # rest"
      by (auto simp: sub_runs.simps [of E ncall r t s] split: prod.splits sum.splits)
    from True "1.prems"(1) have cond: "0 < r \<and> \<not> fm_valid fm0 \<and> t + r < ncall" by simp
    from "1.IH" [OF fm(1) fm(2) run [symmetric] refl refl refl cond "1.prems"(1) rest]
    have ih: "rest \<noteq> []" "\<forall>i<length rest. Suc i < length rest \<longleftrightarrow>
        (\<not> fm_valid (rest ! i) \<and> t + r + (int i + 1) * r < ncall)" by auto
    have "Suc i < length fms \<longleftrightarrow> (\<not> fm_valid (fms ! i) \<and> t + (int i + 1) * r < ncall)"
      if "i < length fms" for i
    proof (cases i)
      case 0
      with fms ih(1) True show ?thesis by (cases rest) auto
    next
      case (Suc j)
      with that fms have j: "j < length rest" by simp
      have eq: "t + r + (int j + 1) * r = t + (int (Suc j) + 1) * r"
        by (simp add: algebra_simps)
      from ih(2) j have "Suc j < length rest \<longleftrightarrow>
          (\<not> fm_valid (rest ! j) \<and> t + r + (int j + 1) * r < ncall)" by blast
      then have "Suc j < length rest \<longleftrightarrow>
          (\<not> fm_valid (rest ! j) \<and> t + (int (Suc j) + 1) * r < ncall)" by (simp only: eq)
      with Suc fms show ?thesis by simp
    qed
    with fms show ?thesis by simp
  qed
qed


lemma sub_runs_returns:
  "engine_returns E \<Longrightarrow> pyfcn s \<noteq> None \<Longrightarrow> minimizer s \<noteq> None \<Longrightarrow>
     \<exists>fms s'. sub_runs E ncall r t s = (Inr fms, s')"
proof (induction E ncall r t s rule: sub_runs.induct)
  case (1 E ncall r t s)
  from "1.prems" obtain f m where fm: "pyfcn s = Some f" "minimizer s = Some m" by auto
  from "1.prems"(1) obtain fm0 m' n g where
    run: "run_migrad E f m r (tol s) = (Inr (fm0, m'), n, g)"
    unfolding engine_returns_def by (metis surj_pair)
  let ?s1 = "(charge n g s)\<lparr>minimizer := Some m', cfmin := Some fm0, last_upst := Some (fm_state fm0)\<rparr>"
  show ?case
  proof (cases "0 < r \<and> \<not> fm_valid fm0 \<and> t + r < ncall")
    case False
    with fm run show ?thesis by (auto simp: sub_runs.simps [of E ncall r t s])
  next
    case True
    have "pyfcn ?s1 \<noteq> None" "minimizer ?s1 \<noteq> None"
      using fm by (simp_all add: charge_def)
    from "1.IH" [OF fm(1) fm(2) run [symmetric] refl refl refl True "1.prems"(1) this]
    obtain rest s' where "sub_runs E ncall r (t + r) ?s1 = (Inr rest, s')" by blast
    with fm run True show ?thesis by (simp add: sub_runs.simps [of E ncall r t s])
  qed
qed

text \<open>
  Each minimum of the result is what the engine returned for the sub-run of its
  position, run on the adapter and the minimizer the sub-runs before it have left; the
  session ends holding the last of them.
\<close>

lemma sub_run_0: "sub_run E r t 0 f m = run_migrad E f m r t"
  by (simp add: sub_run_def)

lemma sub_run_Suc:
  "run_migrad E f m r t = (Inr (x, m'), n, g) \<Longrightarrow>
     sub_run E r t (Suc i) f m = sub_run E r t i (charged n g f) m'"
  by (simp add: sub_run_def)

lemma after_sub_runs_Suc:
  "run_migrad E f m r t = (Inr (x, m'), n, g) \<Longrightarrow>
     after_sub_runs E r t (Suc k) f m = after_sub_runs E r t k (charged n g f) m'"
  by simp

lemma sub_runs_chain:
  "sub_runs E ncall r t s = (Inr fms, s') \<Longrightarrow> pyfcn s = Some f \<Longrightarrow> minimizer s = Some m \<Longrightarrow>
     fms \<noteq> [] \<and>
     (\<forall>i<length fms. \<exists>m' n g. sub_run E r (tol s) i f m = (Inr (fms ! i, m'), n, g)) \<and>
     pyfcn s' = Some (fst (after_sub_runs E r (tol s) (length fms) f m)) \<and>
     minimizer s' = Some (snd (after_sub_runs E r (tol s) (length fms) f m)) \<and>
     cfmin s' = Some (last fms) \<and> last_upst s' = Some (fm_state (last fms))"
proof (induction E ncall r t s arbitrary: fms s' f m rule: sub_runs.induct)
  case (1 E ncall r t s)
  note fm = "1.prems"(2,3)
  from "1.prems"(1) fm obtain fm0 m' n g where
    run: "run_migrad E f m r (tol s) = (Inr (fm0, m'), n, g)"
    by (auto simp: sub_runs.simps [of E ncall r t s] split: prod.splits sum.splits)
  let ?s1 = "(charge n g s)\<lparr>minimizer := Some m', cfmin := Some fm0, last_upst := Some (fm_state fm0)\<rparr>"
  have s1: "pyfcn ?s1 = Some (charged n g f)" "minimizer ?s1 = Some m'"
    using fm by (simp_all add: charge_def charged_def)
  have tol1: "tol ?s1 = tol s" by (simp add: charge_def)
  show ?case
  proof (cases "0 < r \<and> \<not> fm_valid fm0 \<and> t + r < ncall")
    case False
    with "1.prems"(1) fm run have res: "fms = [fm0]" "s' = ?s1"
      by (auto simp: sub_runs.simps [of E ncall r t s])
    have one: "after_sub_runs E r (tol s) (Suc 0) f m = (charged n g f, m')"
      using run by simp
    show ?thesis
      using run s1 by (simp add: res sub_run_0 one)
  next
    case True
    with "1.prems"(1) fm run obtain rest where
      rest: "sub_runs E ncall r (t + r) ?s1 = (Inr rest, s')" and fms: "fms = fm0 # rest"
      by (auto simp: sub_runs.simps [of E ncall r t s] split: prod.splits sum.splits)
    from "1.IH" [OF fm(1) fm(2) run [symmetric] refl refl refl True rest s1]
    have ih1: "rest \<noteq> []"
      and ih2: "\<forall>i<length rest. \<exists>m'' n' g'.
          sub_run E r (tol s) i (charged n g f) m' = (Inr (rest ! i, m''), n', g')"
      and ih3: "pyfcn s' = Some (fst (after_sub_runs E r (tol s) (length rest) (charged n g f) m'))"
      and ih4: "minimizer s' = Some (snd (after_sub_runs E r (tol s) (length rest) (charged n g f) m'))"
      and ih5: "cfmin s' = Some (last rest)" "last_upst s' = Some (fm_state (last rest))"
      unfolding tol1 by simp_all
    have len: "after_sub_runs E r (tol s) (length fms) f m =
        after_sub_runs E r (tol s) (length rest) (charged n g f) m'"
      unfolding fms using after_sub_runs_Suc [OF run] by simp
    have each: "\<exists>m'' n' g'. sub_run E r (tol s) i f m = (Inr (fms ! i, m''), n', g')"
      if "i < length fms" for i
    proof (cases i)
      case 0
      with run fms show ?thesis by (simp add: sub_run_0)
    next
      case (Suc j)
      with that fms have "j < length rest" by simp
      with ih2 obtain m'' n' g' where
        "sub_run E r (tol s) j (charged n g f) m' = (Inr (rest ! j, m''), n', g')" by blast
      with Suc fms sub_run_Suc [OF run, of j] show ?thesis by simp
    qed
    from ih1 fms have last: "last fms = last rest" by simp
    from fms have ne: "fms \<noteq> []" by simp
    show ?thesis
      unfolding len last using ne each ih3 ih4 ih5 by simp
  qed
qed

lemma sub_runs_first_raises:
  "pyfcn s = Some f \<Longrightarrow> minimizer s = Some m \<Longrightarrow> run_migrad E f m r (tol s) = (Inl e, n, g) \<Longrightarrow>
     sub_runs E ncall r t s = (Inl e, charge n g s)"
  by (simp add: sub_runs.simps [of E ncall r t s])

lemma refresh_handles:
  "pyfcn (refreshInternalState s) = pyfcn s"
  "minimizer (refreshInternalState s) = minimizer s"
  "cfmin (refreshInternalState s) = cfmin s"
  "last_upst (refreshInternalState s) = last_upst s"
  by (simp_all add: refreshInternalState_def Let_def split: option.splits)

text \<open>A count that is no C \<open>int\<close> is refused before anything runs; no split at all
  is a division by zero, after the set-up.\<close>

lemma migrad_overflow:
  "\<not> c_int ncall \<or> \<not> c_int nsplit \<Longrightarrow>
     migrad_subruns E ncall resume nsplit precision s = (Inl OverflowError, s)"
  by (auto simp: migrad_subruns_def)

lemma migrad_no_split:
  "c_int ncall \<Longrightarrow> migrad_setup E resume s = (Inr (), s1) \<Longrightarrow>
     migrad_subruns E ncall resume 0 precision s = (Inl ZeroDivisionError, s1)"
  by (simp add: migrad_subruns_def c_int_def)

text \<open>
  C6, as stated, fails. \<open>migrad(ncall=100, nsplit=2)\<close> grants 50 calls to a sub-run.
  With an engine that spends 24 calls in a sub-run and never finds a valid minimum,
  the second sub-run ends with an invalid minimum and 48 calls consumed, which is
  below 100; yet no third sub-run is run.
\<close>

theorem migrad_consumed_calls_counterexample:
  "map_sum id (map fm_valid) (fst (migrad_subruns stalled_engine 100 True 2 None (demo_session []))) =
     Inr [False, False] \<and>
   get_num_call_fcn (snd (migrad_subruns stalled_engine 100 True 2 None (demo_session []))) = 48"
  by (simp add: get_num_call_fcn_def demo_defs model_defs sub_runs.simps)

text \<open>
  C6, as the code has it. Let \<open>ncall\<close> and \<open>nsplit\<close> be C \<open>int\<close>s, \<open>nsplit \<noteq> 0\<close>,
  and let the set-up of \<open>migrad(ncall, nsplit)\<close> have passed, leaving the adapter \<open>f\<close>
  and, with the precision applied, the minimizer \<open>m\<close>. If the budget of a split,
  \<open>r = round(ncall / nsplit)\<close>, is not positive, the call is rejected with the
  \<open>AssertionError\<close>. Otherwise the first sub-run is run: if the engine raises in it,
  so does the call; and if the call returns, it has run at least one sub-run, every
  minimum of its result is what the engine returned for the sub-run of that position
  with the budget \<open>r\<close>, after the sub-run number \<open>i + 1\<close> another one was run exactly
  when the minimum just found was not valid and the budget granted so far,
  \<open>(i + 1) * r\<close>, was below \<open>ncall\<close> (the calls the engine has consumed are not
  looked at), and the session holds the adapter and the minimizer the sub-runs have
  left and the minimum and the state of the last one. The call returns when the engine
  does.
\<close>

theorem migrad_budget_and_subruns:
  assumes "c_int ncall" and "c_int nsplit" and "nsplit \<noteq> 0"
    and "migrad_setup E resume s = (Inr (), s1)"
    and "pyfcn s1 = Some f" and "minimizer s1 = Some m0"
    and "m = with_precision precision m0" and "r = py_round ncall nsplit"
  shows "(r \<le> 0 \<longrightarrow>
            migrad_subruns E ncall resume nsplit precision s = (Inl AssertionError, s1)) \<and>
         (0 < r \<longrightarrow>
            (\<forall>e n g. run_migrad E f m r (tol s1) = (Inl e, n, g) \<longrightarrow>
               fst (migrad_subruns E ncall resume nsplit precision s) = Inl e) \<and>
            (\<forall>fms s'. migrad_subruns E ncall resume nsplit precision s = (Inr fms, s') \<longrightarrow>
               fms \<noteq> [] \<and>
               (\<forall>i<length fms.
                  (\<exists>m' n g. sub_run E r (tol s1) i f m = (Inr (fms ! i, m'), n, g)) \<and>
                  (Suc i < length fms \<longleftrightarrow> (\<not> fm_valid (fms ! i) \<and> (int i + 1) * r < ncall))) \<and>
               pyfcn s' = Some (fst (after_sub_runs E r (tol s1) (length fms) f m)) \<and>
               minimizer s' = Some (snd (after_sub_runs E r (tol s1) (length fms) f m)) \<and>
               cfmin s' = Some (last fms) \<and> last_upst s' = Some (fm_state (last fms))) \<and>
            (engine_returns E \<longrightarrow>
               (\<exists>fms s'. migrad_subruns E ncall resume nsplit precision s = (Inr fms, s'))))"
proof -
  let ?s2 = "case precision of None \<Rightarrow> s1
     | Some p \<Rightarrow> s1\<lparr>minimizer := map_option (\<lambda>m. m\<lparr>m_precision := Some p\<rparr>) (minimizer s1)\<rparr>"
  have s2: "pyfcn ?s2 = Some f" "minimizer ?s2 = Some m" "tol ?s2 = tol s1"
    using assms(5,6,7) by (simp_all add: with_precision_def split: option.splits)
  have unfolded: "migrad_subruns E ncall resume nsplit precision s =
      (case sub_runs E ncall r 0 ?s2 of
         (Inl e, s3) \<Rightarrow> (Inl e, s3)
       | (Inr fms, s3) \<Rightarrow>
           (Inr fms, refreshInternalState (s3\<lparr>last_upst := map_option fm_state (cfmin s3)\<rparr>)))"
    if "0 < r"
    using assms(1,2,3,4,8) that by (simp add: migrad_subruns_def Let_def)
  have rejected: "migrad_subruns E ncall resume nsplit precision s = (Inl AssertionError, s1)"
    if "r \<le> 0"
    using assms(1,2,3,4,8) that by (simp add: migrad_subruns_def)
  have raises: "fst (migrad_subruns E ncall resume nsplit precision s) = Inl e"
    if pos: "0 < r" and run: "run_migrad E f m r (tol s1) = (Inl e, n, g)" for e n g
  proof -
    from run s2(3) have "run_migrad E f m r (tol ?s2) = (Inl e, n, g)" by simp
    from sub_runs_first_raises [OF s2(1) s2(2) this, of ncall 0] unfolded [OF pos]
    show ?thesis by simp
  qed
  have trace: "fms \<noteq> [] \<and>
      (\<forall>i<length fms.
         (\<exists>m' n g. sub_run E r (tol s1) i f m = (Inr (fms ! i, m'), n, g)) \<and>
         (Suc i < length fms \<longleftrightarrow> (\<not> fm_valid (fms ! i) \<and> (int i + 1) * r < ncall))) \<and>
      pyfcn s' = Some (fst (after_sub_runs E r (tol s1) (length fms) f m)) \<and>
      minimizer s' = Some (snd (after_sub_runs E r (tol s1) (length fms) f m)) \<and>
      cfmin s' = Some (last fms) \<and> last_upst s' = Some (fm_state (last fms))"
    if pos: "0 < r" and run: "migrad_subruns E ncall resume nsplit precision s = (Inr fms, s')"
    for fms s'
  proof -
    from run unfolded [OF pos] obtain s3 where
      s3: "sub_runs E ncall r 0 ?s2 = (Inr fms, s3)"
      and s': "s' = refreshInternalState (s3\<lparr>last_upst := map_option fm_state (cfmin s3)\<rparr>)"
      by (auto split: prod.splits sum.splits)
    from sub_runs_trace [OF pos s3]
    have t1: "\<forall>i<length fms. Suc i < length fms \<longleftrightarrow>
        (\<not> fm_valid (fms ! i) \<and> (int i + 1) * r < ncall)" by simp
    from sub_runs_chain [OF s3 s2(1) s2(2)]
    have ne: "fms \<noteq> []"
      and c1: "\<forall>i<length fms. \<exists>m' n g. sub_run E r (tol s1) i f m = (Inr (fms ! i, m'), n, g)"
      and c2: "pyfcn s3 = Some (fst (after_sub_runs E r (tol s1) (length fms) f m))"
      and c3: "minimizer s3 = Some (snd (after_sub_runs E r (tol s1) (length fms) f m))"
      and c4: "cfmin s3 = Some (last fms)"
      unfolding s2(3) by simp_all
    have f1: "pyfcn s' = pyfcn s3" "minimizer s' = minimizer s3" "cfmin s' = cfmin s3"
      "last_upst s' = map_option fm_state (cfmin s3)"
      unfolding s' by (simp_all add: refresh_handles)
    show ?thesis
    proof (intro conjI)
      show "fms \<noteq> []" by (rule ne)
      show "\<forall>i<length fms.
         (\<exists>m' n g. sub_run E r (tol s1) i f m = (Inr (fms ! i, m'), n, g)) \<and>
         (Suc i < length fms \<longleftrightarrow> (\<not> fm_valid (fms ! i) \<and> (int i + 1) * r < ncall))"
        using c1 t1 by simp
      show "pyfcn s' = Some (fst (after_sub_runs E r (tol s1) (length fms) f m))"
        using f1(1) c2 by simp
      show "minimizer s' = Some (snd (after_sub_runs E r (tol s1) (length fms) f m))"
        using f1(2) c3 by simp
      show "cfmin s' = Some (last fms)" using f1(3) c4 by simp
      show "last_upst s' = Some (fm_state (last fms))" using f1(4) c4 by simp
    qed
  qed
  have returns: "\<exists>fms s'. migrad_subruns E ncall resume nsplit precision s = (Inr fms, s')"
    if pos: "0 < r" and ok: "engine_returns E"
  proof -
    from s2 have "pyfcn ?s2 \<noteq> None" "minimizer ?s2 \<noteq> None" by simp_all
    from sub_runs_returns [OF ok this, of ncall r 0]
    obtain fms s3 where "sub_runs E ncall r 0 ?s2 = (Inr fms, s3)" by blast
    with unfolded [OF pos] show ?thesis by simp
  qed
  show ?thesis
  proof (intro conjI)
    show "r \<le> 0 \<longrightarrow>
        migrad_subruns E ncall resume nsplit precision s = (Inl AssertionError, s1)"
      by (rule impI) (rule rejected)
    show "0 < r \<longrightarrow>
        (\<forall>e n g. run_migrad E f m r (tol s1) = (Inl e, n, g) \<longrightarrow>
           fst (migrad_subruns E ncall resume nsplit precision s) = Inl e) \<and>
        (\<forall>fms s'. migrad_subruns E ncall resume nsplit precision s = (Inr fms, s') \<longrightarrow>
           fms \<noteq> [] \<and>
           (\<forall>i<length fms.
              (\<exists>m' n g. sub_run E r (tol s1) i f m = (Inr (fms ! i, m'), n, g)) \<and>
              (Suc i < length fms \<longleftrightarrow> (\<not> fm_valid (fms ! i) \<and> (int i + 1) * r < ncall))) \<and>
           pyfcn s' = Some (fst (after_sub_runs E r (tol s1) (length fms) f m)) \<and>
           minimizer s' = Some (snd (after_sub_runs E r (tol s1) (length fms) f m)) \<and>
           cfmin s' = Some (last fms) \<and> last_upst s' = Some (fm_state (last fms))) \<and>
        (engine_returns E \<longrightarrow>
           (\<exists>fms s'. migrad_subruns E ncall resume nsplit precision s = (Inr fms, s')))"
    proof (rule impI, intro conjI)
      assume pos: "0 < r"
      show "\<forall>e n g. run_migrad E f m r (tol s1) = (Inl e, n, g) \<longrightarrow>
           fst (migrad_subruns E ncall resume nsplit precision s) = Inl e"
        by (intro allI impI) (rule raises [OF pos])
      show "\<forall>fms s'. migrad_subruns E ncall resume nsplit precision s = (Inr fms, s') \<longrightarrow>
           fms \<noteq> [] \<and>
           (\<forall>i<length fms.
              (\<exists>m' n g. sub_run E r (tol s1) i f m = (Inr (fms ! i, m'), n, g)) \<and>
              (Suc i < length fms \<longleftrightarrow> (\<not> fm_valid (fms ! i) \<and> (int i + 1) * r < ncall))) \<and>
           pyfcn s' = Some (fst (after_sub_runs E r (tol s1) (length fms) f m)) \<and>
           minimizer s' = Some (snd (after_sub_runs E r (tol s1) (length fms) f m)) \<and>
           cfmin s' = Some (last fms) \<and> last_upst s' = Some (fm_state (last fms))"
        by (intro allI impI) (rule trace [OF pos])
      show "engine_returns E \<longrightarrow>
           (\<exists>fms s'. migrad_subruns E ncall resume nsplit precision s = (Inr fms, s'))"
        by (rule impI) (rule returns [OF pos])
    qed
  qed
qed

theorem migrad_budget_and_subruns_witness:
  "fst (migrad_subruns slow_engine 0 True 1 None (demo_session [])) = Inl AssertionError \<and>
   (\<exists>fm1 fm2 s'. migrad_subruns slow_engine 10000 True 2 None (demo_session []) = (Inr [fm1, fm2], s')
      \<and> \<not> fm_valid fm1 \<and> fm_valid fm2 \<and> cfmin s' = Some fm2)"
proof -
  define s1 where "s1 = snd (migrad_setup slow_engine True (demo_session []))"
  define f where "f = the (pyfcn s1)"
  define m0 where "m0 = the (minimizer s1)"
  have c: "c_int 0" "c_int 1" "c_int 10000" "c_int 2" by (simp_all add: c_int_def)
  have h1: "(1::int) \<noteq> 0" and h2: "(2::int) \<noteq> 0" by simp_all
  have stp: "migrad_setup slow_engine True (demo_session []) = (Inr (), s1)"
    by (simp add: s1_def demo_defs model_defs)
  have pf: "pyfcn s1 = Some f" and mm: "minimizer s1 = Some m0"
    by (simp_all add: f_def m0_def s1_def demo_defs model_defs)
  have r0: "py_round 0 1 \<le> 0" by (simp add: py_round_def)
  from migrad_budget_and_subruns [OF c(1) c(2) h1 stp pf mm refl refl, of None] r0
  have a: "fst (migrad_subruns slow_engine 0 True 1 None (demo_session [])) = Inl AssertionError"
    by simp
  have r2: "0 < py_round 10000 2" by (simp add: py_round_def)
  have ok: "engine_returns slow_engine"
    by (simp add: engine_returns_def demo_defs)
  note main = migrad_budget_and_subruns [OF c(3) c(4) h2 stp pf mm refl refl, of None,
      THEN conjunct2, rule_format, OF r2]
  from main [THEN conjunct2, THEN conjunct2, rule_format, OF ok]
  obtain fms s' where run: "migrad_subruns slow_engine 10000 True 2 None (demo_session []) = (Inr fms, s')"
    by (elim exE) (rule that)
  from main [THEN conjunct2, THEN conjunct1, rule_format, OF run]
  have last: "cfmin s' = Some (last fms)" by simp
  have "fst (migrad_subruns slow_engine 10000 True 2 None (demo_session [])) =
      Inr [\<lparr>fm_valid = False, fm_fval = 0, fm_state = demo_minimum (projr (initialParameterState slow_engine (demo_session [])))\<rparr>,
           \<lparr>fm_valid = True, fm_fval = 0, fm_state = demo_minimum (demo_minimum (projr (initialParameterState slow_engine (demo_session []))))\<rparr>]"
    by (simp add: demo_defs model_defs sub_runs.simps)
  with run have "\<exists>fm1 fm2. fms = [fm1, fm2] \<and> \<not> fm_valid fm1 \<and> fm_valid fm2" by simp
  then obtain fm1 fm2 where fms: "fms = [fm1, fm2]" "\<not> fm_valid fm1" "fm_valid fm2"
    by (elim exE conjE) (rule that)
  from last fms have "cfmin s' = Some fm2" by simp
  with run fms a show ?thesis by auto
qed


section \<open>Restarting \<open>migrad\<close>\<close>

lemma set_limits_registry:
  "initial_limit s' = initial_limit s \<Longrightarrow> initial_value s' = initial_value s \<Longrightarrow>
   initial_error s' = initial_error s \<Longrightarrow> set_limits E s' vs ret = set_limits E s vs ret"
  by (induction vs arbitrary: ret) (simp_all add: Let_def split: option.splits)

lemma initialParameterState_registry:
  "parameters s' = parameters s \<Longrightarrow> initial_limit s' = initial_limit s \<Longrightarrow>
   initial_value s' = initial_value s \<Longrightarrow> initial_error s' = initial_error s \<Longrightarrow>
   initial_fix s' = initial_fix s \<Longrightarrow>
   initialParameterState E s' = initialParameterState E s"
  by (simp add: initialParameterState_def set_limits_registry [of s' s] split: sum.splits)

lemma initialParameterState_construct_FCN [simp]:
  "initialParameterState E (construct_FCN s) = initialParameterState E s"
  by (rule initialParameterState_registry) (simp_all add: construct_FCN_def)

lemma seeded_values:
  "seeded s st \<Longrightarrow> map p_value (u_params st) = map (initial_value s) (map p_name (u_params st)) \<and>
      map p_error (u_params st) = map (initial_error s) (map p_name (u_params st))"
  by (simp add: seeded_def list_all_iff)

text \<open>
  C2, as stated, fails. After one \<open>migrad()\<close> the example session holds a minimum
  and the best-fit values \<open>(2, 2)\<close>; \<open>migrad(resume=False)\<close> then seeds the new
  minimizer with \<open>(0, 0)\<close>, the initial values.
\<close>

theorem migrad_restart_seed_counterexample:
  "cfmin (demo_fitted []) \<noteq> None \<and> args (demo_fitted []) = [2, 2] \<and>
   map_option (\<lambda>m. map p_value (u_params (m_state m)))
     (minimizer (snd (migrad_setup demo_engine False (demo_fitted [])))) = Some [0, 0]"
  by (simp add: demo_defs model_defs sub_runs.simps)

text \<open>
  C2, as the code has it. On every session whose limits are accepted (one that holds a
  minimum is such a session), the set-up of \<open>migrad(resume=False)\<close> replaces adapter and
  minimizer: the counters of objective and gradient calls are zero, and the new
  minimizer starts from \<open>initialParameterState\<close>, that is from the values and errors the
  registry was given at construction (\<open>initial_value\<close>, \<open>initial_error\<close>), not from
  the values the previous run has reached.
\<close>

theorem migrad_restart_seeds_initial_values:
  assumes "\<forall>w\<in>set (parameters s). valid_limit (initial_limit s w)"
  shows "\<exists>s1 f m. migrad_setup E False s = (Inr (), s1) \<and>
           pyfcn s1 = Some f \<and> f_ncall f = 0 \<and> f_ngrad f = 0 \<and>
           get_num_call_fcn s1 = 0 \<and> get_num_call_grad s1 = 0 \<and>
           minimizer s1 = Some m \<and>
           initialParameterState E s = Inr (m_state m) \<and>
           map p_name (u_params (m_state m)) = parameters s \<and>
           map p_value (u_params (m_state m)) = map (initial_value s) (parameters s) \<and>
           map p_error (u_params (m_state m)) = map (initial_error s) (parameters s)"
proof -
  from initial_state_built [OF assms] obtain st where
    st: "initialParameterState E s = Inr st" and names: "map p_name (u_params st) = parameters s"
    and sd: "seeded s st" by blast
  define f where "f = \<lparr>f_up = errordef s, f_ncall = 0, f_ngrad = 0, f_grad = grad_fcn s,
         f_array_call = use_array_call s, f_names = parameters s, f_throw_nan = throw_nan s\<rparr>"
  define m where "m = \<lparr>m_state = st, m_strategy = strategy s, m_print_level = print_level s,
                           m_precision = None\<rparr>"
  define s1 where "s1 = s\<lparr>pyfcn := Some f, minimizer := Some m\<rparr>"
  have "migrad_setup E False s = (Inr (), s1)"
    by (simp add: migrad_setup_def st Let_def) (simp add: construct_FCN_def s1_def f_def m_def)
  moreover have "pyfcn s1 = Some f" "minimizer s1 = Some m" by (simp_all add: s1_def)
  moreover have "f_ncall f = 0" "f_ngrad f = 0" by (simp_all add: f_def)
  moreover have "get_num_call_fcn s1 = 0" "get_num_call_grad s1 = 0"
    by (simp_all add: get_num_call_fcn_def get_num_call_grad_def s1_def f_def)
  moreover have "m_state m = st" by (simp add: m_def)
  ultimately show ?thesis
    using st names seeded_values [OF sd] by (intro exI [of _ s1] exI [of _ f] exI [of _ m]) simp
qed

theorem migrad_restart_seeds_initial_values_witness:
  "get_num_call_fcn (demo_fitted []) = 24 \<and>
   (\<exists>s1 m. migrad_setup demo_engine False (demo_fitted []) = (Inr (), s1) \<and>
      get_num_call_fcn s1 = 0 \<and> minimizer s1 = Some m \<and>
      map p_value (u_params (m_state m)) = [0, 0])"
proof -
  have ps: "parameters (demo_fitted []) = [''a'', ''b'']"
    by (simp add: demo_defs model_defs sub_runs.simps)
  have il: "initial_limit (demo_fitted []) = (\<lambda>x. None)"
    by (simp add: demo_defs model_defs sub_runs.simps)
  have iv: "initial_value (demo_fitted []) = (\<lambda>x. 0)"
    by (simp add: demo_defs model_defs sub_runs.simps)
  have h: "\<forall>w\<in>set (parameters (demo_fitted [])). valid_limit (initial_limit (demo_fitted []) w)"
    by (simp add: il valid_limit_def)
  have n: "get_num_call_fcn (demo_fitted []) = 24"
    by (simp add: get_num_call_fcn_def demo_defs model_defs sub_runs.simps)
  from migrad_restart_seeds_initial_values [OF h, of demo_engine] n
  show ?thesis by (auto simp: ps iv)
qed

section \<open>MINOS\<close>

subsection \<open>The legacy view\<close>

lemma fold_upd_other:
  "x \<noteq> c \<Longrightarrow> fold (\<lambda>(k, v) m. m((k, c) \<mapsto> g v)) items m0 (k', x) = m0 (k', x)"
  by (induction items arbitrary: m0) auto

lemma fold_upd_same:
  "distinct (map fst items) \<Longrightarrow>
   fold (\<lambda>(k, v) m. m((k, c) \<mapsto> g v)) items m0 (k', c) =
     (case map_of items k' of None \<Rightarrow> m0 (k', c) | Some r \<Rightarrow> Some (g r))"
proof (induction items arbitrary: m0)
  case Nil
  then show ?case by simp
next
  case (Cons kv items)
  obtain k v where kv: "kv = (k, v)" by (cases kv)
  from Cons.prems kv have d: "distinct (map fst items)" and nk: "k \<notin> fst ` set items" by auto
  from nk have none: "map_of items k = None" by (simp add: map_of_eq_None_iff)
  show ?case
    using Cons.IH [OF d, of "m0((k, c) \<mapsto> g v)"] kv none
    by (auto split: option.splits)
qed

lemma legacy_merrors_eq:
  assumes "distinct (map fst items)"
  shows "legacy_merrors items (k, x) =
     (case map_of items k of
        None \<Rightarrow> None
      | Some r \<Rightarrow> if x = 1 then Some (upper r) else if x = - 1 then Some (lower r) else None)"
proof -
  define up where "up = fold (\<lambda>(k, v) m. m((k, 1::real) \<mapsto> upper v)) items Map.empty"
  have leg: "legacy_merrors items = fold (\<lambda>(k, v) m. m((k, - 1::real) \<mapsto> lower v)) items up"
    by (simp add: legacy_merrors_def up_def)
  have up1: "up (k, 1) = (case map_of items k of None \<Rightarrow> None | Some r \<Rightarrow> Some (upper r))"
    unfolding up_def by (simp add: fold_upd_same [OF assms])
  have upx: "up (k, x) = None" if "x \<noteq> 1"
    unfolding up_def using that by (simp add: fold_upd_other)
  have lo1: "legacy_merrors items (k, - 1) =
      (case map_of items k of None \<Rightarrow> up (k, - 1) | Some r \<Rightarrow> Some (lower r))"
    unfolding leg by (simp add: fold_upd_same [OF assms])
  have lox: "legacy_merrors items (k, x) = up (k, x)" if "x \<noteq> - 1"
    unfolding leg using that by (simp add: fold_upd_other)
  have m1: "up (k, - 1) = None"
    unfolding up_def by (simp add: fold_upd_other)
  show ?thesis
  proof (cases "x = - 1")
    case True
    with lo1 m1 show ?thesis by (simp split: option.splits)
  next
    case False
    note nm = this
    show ?thesis
    proof (cases "x = 1")
      case True
      with lox [OF nm] up1 show ?thesis by (simp split: option.splits)
    next
      case False
      with lox [OF nm] upx [OF False] nm show ?thesis by (simp split: option.splits)
    qed
  qed
qed

lemma refresh_consistent:
  "dict_ok s \<Longrightarrow> merrors_consistent (refreshInternalState s)"
proof -
  assume d: "dict_ok s"
  have ms: "merrors_struct (refreshInternalState s) = merrors_struct s"
    by (simp add: refreshInternalState_def Let_def split: option.splits)
  have me: "merrors (refreshInternalState s) = legacy_merrors (merrors_struct s)"
    by (simp add: refreshInternalState_def Let_def split: option.splits)
  from d have dd: "distinct (map fst (merrors_struct s))" by (simp add: dict_ok_def)
  show ?thesis
    unfolding merrors_consistent_def ms me
    by (auto simp: legacy_merrors_eq [OF dd] split: option.splits if_splits)
qed

subsection \<open>What the operations leave untouched\<close>

lemma charge_fields [simp]:
  "merrors_struct (charge n g s) = merrors_struct s"
  "merrors (charge n g s) = merrors s"
  "diag (charge n g s) = diag s"
  "parameters (charge n g s) = parameters s"
  "initial_fix (charge n g s) = initial_fix s"
  "strategy (charge n g s) = strategy s"
  "direct_calls (charge n g s) = direct_calls s"
  "map_option f_up (pyfcn (charge n g s)) = map_option f_up (pyfcn s)"
  "(pyfcn (charge n g s) = None) = (pyfcn s = None)"
  by (simp_all add: charge_def option.map_comp comp_def)

lemma warn_fields [simp]:
  "merrors_struct (warn w s) = merrors_struct s"
  "merrors (warn w s) = merrors s"
  "diag (warn w s) = diag s @ [w]"
  "pyfcn (warn w s) = pyfcn s"
  by (simp_all add: warn_def)

lemma SetErrorDef_fields [simp]:
  "merrors_struct (SetErrorDef u s) = merrors_struct s"
  "merrors (SetErrorDef u s) = merrors s"
  "diag (SetErrorDef u s) = diag s"
  "parameters (SetErrorDef u s) = parameters s"
  "initial_fix (SetErrorDef u s) = initial_fix s"
  "cfmin (SetErrorDef u s) = cfmin s"
  "map_option f_up (pyfcn (SetErrorDef u s)) = map_option (\<lambda>f. u) (pyfcn s)"
  "(pyfcn (SetErrorDef u s) = None) = (pyfcn s = None)"
  "list_of_fixed_param (SetErrorDef u s) = list_of_fixed_param s"
  by (simp_all add: SetErrorDef_def list_of_fixed_param_def option.map_comp comp_def)

lemma refresh_fields [simp]:
  "merrors_struct (refreshInternalState s) = merrors_struct s"
  "diag (refreshInternalState s) = diag s"
  "pyfcn (refreshInternalState s) = pyfcn s"
  "last_upst (refreshInternalState s) = last_upst s"
  by (simp_all add: refreshInternalState_def Let_def split: option.splits)

lemma dict_ok_cong: "merrors_struct s' = merrors_struct s \<Longrightarrow> dict_ok s' = dict_ok s"
  by (simp add: dict_ok_def)

lemma minos_loop_frame:
  "minos_loop E fm var maxcall fixed vs s = (res, s') \<Longrightarrow>
     (\<forall>k\<in>set fixed. map_of (merrors_struct s') k = map_of (merrors_struct s) k) \<and>
     (dict_ok s \<longrightarrow> dict_ok s') \<and>
     (var = None \<longrightarrow> diag s' = diag s \<and> res \<noteq> Inr Returned) \<and>
     merrors s' = merrors s"
proof (induction vs arbitrary: s)
  case Nil
  then show ?case by auto
next
  case (Cons vname rest)
  show ?case
  proof (cases "vname \<in> set fixed")
    case True
    show ?thesis
    proof (cases "var = None")
      case True
      with \<open>vname \<in> set fixed\<close> Cons.prems have "minos_loop E fm var maxcall fixed rest s = (res, s')"
        by simp
      from Cons.IH [OF this] show ?thesis .
    next
      case False
      with \<open>vname \<in> set fixed\<close> Cons.prems have "s' = warn MinosOnFixed s" by auto
      with False show ?thesis by (simp add: dict_ok_def)
    qed
  next
    case False
    note nf = this
    show ?thesis
    proof (cases "pyfcn s")
      case None
      with nf Cons.prems show ?thesis by auto
    next
      case (Some f)
      obtain out n g where run:
        "run_minos E f fm (strategy s) (Index (u_params (fm_state fm)) vname) maxcall = (out, n, g)"
        by (metis surj_pair)
      show ?thesis
      proof (cases out)
        case (Inl e)
        with nf Some run Cons.prems show ?thesis by (auto simp: dict_ok_def)
      next
        case (Inr mnerror)
        let ?s2 = "(charge n g s)\<lparr>merrors_struct := AList.update vname mnerror (merrors_struct s)\<rparr>"
        from nf Some run Inr Cons.prems have
          "minos_loop E fm var maxcall fixed rest ?s2 = (res, s')" by (simp add: Let_def)
        from Cons.IH [OF this] have ih:
          "\<forall>k\<in>set fixed. map_of (merrors_struct s') k = map_of (merrors_struct ?s2) k"
          "dict_ok ?s2 \<longrightarrow> dict_ok s'"
          "var = None \<longrightarrow> diag s' = diag ?s2 \<and> res \<noteq> Inr Returned"
          "merrors s' = merrors ?s2" by auto
        have a: "map_of (merrors_struct ?s2) k = map_of (merrors_struct s) k" if "k \<in> set fixed" for k
          using that nf by (auto simp: update_conv')
        have b: "dict_ok s \<Longrightarrow> dict_ok ?s2"
          by (simp add: dict_ok_def distinct_update)
        from ih a b show ?thesis by auto
      qed
    qed
  qed
qed

lemma minos_loop_returns:
  "minos_returns E \<Longrightarrow> pyfcn s \<noteq> None \<Longrightarrow>
     \<exists>s'. minos_loop E fm None maxcall fixed vs s = (Inr Completed, s')"
proof (induction vs arbitrary: s)
  case Nil
  then show ?case by simp
next
  case (Cons vname rest)
  show ?case
  proof (cases "vname \<in> set fixed")
    case True
    with Cons show ?thesis by simp
  next
    case False
    from Cons.prems(2) obtain f where f: "pyfcn s = Some f" by auto
    from Cons.prems(1) obtain mnerror n g where run:
      "run_minos E f fm (strategy s) (Index (u_params (fm_state fm)) vname) maxcall = (Inr mnerror, n, g)"
      unfolding minos_returns_def by blast
    let ?s2 = "(charge n g s)\<lparr>merrors_struct := AList.update vname mnerror (merrors_struct s)\<rparr>"
    have "pyfcn ?s2 \<noteq> None" using f by (simp add: charge_def)
    from Cons.IH [OF Cons.prems(1) this] False f run show ?thesis by (simp add: Let_def)
  qed
qed

text \<open>\<open>minos\<close> on one explicitly requested fixed parameter.\<close>

lemma minos_on_fixed:
  assumes "pyfcn s = Some f" and "cfmin s = Some fm" and "fm_valid fm"
    and "v \<in> set (parameters s)" and "initial_fix s v"
  shows "minos E (Some v) sigma maxcall s =
           (Inr None, warn MinosOnFixed (SetErrorDef (f_up f * sigma * sigma) s))"
proof -
  have "v \<in> set (list_of_fixed_param s)"
    using assms(4,5) by (simp add: list_of_fixed_param_def)
  then show ?thesis
    using assms by (simp add: minos_def Let_def)
qed

lemma sub_runs_struct:
  "sub_runs E ncall r t s = (res, s') \<Longrightarrow> merrors_struct s' = merrors_struct s"
proof (induction E ncall r t s arbitrary: res s' rule: sub_runs.induct)
  case (1 E ncall r t s)
  show ?case
  proof (cases "pyfcn s")
    case None
    with "1.prems" show ?thesis by (simp add: sub_runs.simps [of E ncall r t s])
  next
    case (Some f)
    note f = this
    show ?thesis
    proof (cases "minimizer s")
      case None
      with f "1.prems" show ?thesis by (simp add: sub_runs.simps [of E ncall r t s])
    next
      case (Some m)
      note m = this
      obtain out n g where run: "run_migrad E f m r (tol s) = (out, n, g)" by (metis surj_pair)
      show ?thesis
      proof (cases out)
        case (Inl e)
        with f m run "1.prems" show ?thesis by (auto simp: sub_runs.simps [of E ncall r t s])
      next
        case (Inr pr)
        obtain fm0 m' where pr: "pr = (fm0, m')" by (cases pr)
        let ?s1 = "(charge n g s)\<lparr>minimizer := Some m', cfmin := Some fm0, last_upst := Some (fm_state fm0)\<rparr>"
        show ?thesis
        proof (cases "0 < r \<and> \<not> fm_valid fm0 \<and> t + r < ncall")
          case False
          with f m run Inr pr "1.prems" show ?thesis
            by (auto simp: sub_runs.simps [of E ncall r t s])
        next
          case True
          obtain res1 s1' where rec: "sub_runs E ncall r (t + r) ?s1 = (res1, s1')" by (metis surj_pair)
          from "1.IH" [OF f m run [symmetric] Inr pr [symmetric] refl True rec]
          have "merrors_struct s1' = merrors_struct s" by simp
          moreover from f m run Inr pr True rec "1.prems" have "s' = s1'"
            by (auto simp: sub_runs.simps [of E ncall r t s] split: sum.splits)
          ultimately show ?thesis by simp
        qed
      qed
    qed
  qed
qed

lemma migrad_setup_struct:
  "migrad_setup E resume s = (res, s1) \<Longrightarrow> merrors_struct s1 = merrors_struct s"
  by (auto simp: migrad_setup_def construct_FCN_def Let_def
        split: if_splits sum.splits option.splits prod.splits)

lemma migrad_consistent:
  assumes "dict_ok s" and "migrad E ncall resume nsplit precision s = (Inr r, s')"
  shows "merrors_consistent s'"
proof -
  from assms(2) obtain fms where sr: "migrad_subruns E ncall resume nsplit precision s = (Inr fms, s')"
    by (auto simp: migrad_def split: prod.splits sum.splits)
  obtain r1 s1 where su: "migrad_setup E resume s = (r1, s1)" by (metis surj_pair)
  let ?s2 = "case precision of None \<Rightarrow> s1
     | Some p \<Rightarrow> s1\<lparr>minimizer := map_option (\<lambda>m. m\<lparr>m_precision := Some p\<rparr>) (minimizer s1)\<rparr>"
  from sr su obtain s3 where
    run: "sub_runs E ncall (py_round ncall nsplit) 0 ?s2 = (Inr fms, s3)"
    and s': "s' = refreshInternalState (s3\<lparr>last_upst := map_option fm_state (cfmin s3)\<rparr>)"
    by (auto simp: migrad_subruns_def Let_def split: prod.splits sum.splits if_splits)
  have "merrors_struct ?s2 = merrors_struct s1" by (simp split: option.splits)
  with sub_runs_struct [OF run] migrad_setup_struct [OF su]
  have "merrors_struct (s3\<lparr>last_upst := map_option fm_state (cfmin s3)\<rparr>) = merrors_struct s" by simp
  with assms(1) have "dict_ok (s3\<lparr>last_upst := map_option fm_state (cfmin s3)\<rparr>)"
    by (simp add: dict_ok_def)
  from refresh_consistent [OF this] s' show ?thesis by simp
qed

lemma hesse_consistent:
  assumes "dict_ok s" and "hesse E maxcall s = (Inr r, s')"
  shows "merrors_consistent s'"
proof -
  from assms(2) obtain fm f upst n g where
    "cfmin s = Some fm" "pyfcn s = Some f"
    "run_hesse E f (fm_state fm) (strategy s) maxcall = (Inr upst, n, g)"
    by (auto simp: hesse_def split: option.splits prod.splits sum.splits)
  with assms(2) have s': "s' = refreshInternalState
      ((if u_cov upst = None then warn HesseFailedWarning (charge n g s) else charge n g s)\<lparr>last_upst := Some upst\<rparr>)"
    by (auto simp: hesse_def Let_def split: if_splits sum.splits)
  from assms(1) have "dict_ok
      ((if u_cov upst = None then warn HesseFailedWarning (charge n g s) else charge n g s)\<lparr>last_upst := Some upst\<rparr>)"
    by (simp add: dict_ok_def)
  from refresh_consistent [OF this] s' show ?thesis by simp
qed

lemma minos_loop_single_returned:
  "minos_loop E fm (Some v) maxcall fixed [v] s = (Inr Returned, s') \<Longrightarrow> s' = warn MinosOnFixed s"
  by (auto simp: Let_def split: if_splits option.splits prod.splits sum.splits)

lemma minos_results:
  assumes "minos E var sigma maxcall s = (Inr out, s')"
  shows "\<exists>f fm. pyfcn s = Some f \<and> cfmin s = Some fm \<and> fm_valid fm \<and>
          (case out of
             None \<Rightarrow> (\<exists>v. var = Some v \<and> s' = warn MinosOnFixed (SetErrorDef (f_up f * sigma * sigma) s))
           | Some items \<Rightarrow>
               (\<exists>s2. minos_loop E fm var maxcall (list_of_fixed_param s)
                        (case var of None \<Rightarrow> parameters s | Some v \<Rightarrow> [v])
                        (SetErrorDef (f_up f * sigma * sigma) s) = (Inr Completed, s2) \<and>
                     s' = SetErrorDef (f_up f) (refreshInternalState s2) \<and> items = merrors_struct s'))"
proof -
  from assms obtain f fm where f: "pyfcn s = Some f" and fm: "cfmin s = Some fm" and valid: "fm_valid fm"
    by (auto simp: minos_def Let_def split: option.splits if_splits)
  let ?s1 = "SetErrorDef (f_up f * sigma * sigma) s"
  define vl where "vl = (case var of None \<Rightarrow> parameters s | Some v \<Rightarrow> [v])"
  have known: "var = Some v \<Longrightarrow> v \<in> set (parameters s)" for v
    using assms f fm valid by (auto simp: minos_def Let_def split: if_splits)
  obtain res s2 where loop: "minos_loop E fm var maxcall (list_of_fixed_param s) vl ?s1 = (res, s2)"
    by (metis surj_pair)
  have unfolded: "minos E var sigma maxcall s =
      (case res of Inl e \<Rightarrow> (Inl e, s2)
       | Inr Returned \<Rightarrow> (Inr None, s2)
       | Inr Completed \<Rightarrow> (Inr (Some (merrors_struct (SetErrorDef (f_up f) (refreshInternalState s2)))),
                             SetErrorDef (f_up f) (refreshInternalState s2)))"
    using f fm valid loop known
    by (cases var) (auto simp: minos_def Let_def vl_def split: sum.splits loop_exit.splits)
  show ?thesis
  proof (cases res)
    case (Inl e)
    with unfolded assms show ?thesis by simp
  next
    case (Inr ex)
    show ?thesis
    proof (cases ex)
      case Completed
      with Inr unfolded assms loop f fm valid show ?thesis by (auto simp: vl_def)
    next
      case Returned
      with Inr unfolded assms have out: "out = None" and s': "s' = s2" by auto
      from minos_loop_frame [OF loop] Inr Returned obtain v where v: "var = Some v" by auto
      then have vl: "vl = [v]" by (simp add: vl_def)
      have "minos_loop E fm (Some v) maxcall (list_of_fixed_param s) [v] ?s1 = (Inr Returned, s2)"
        using loop by (simp only: vl v Inr Returned)
      then have "s2 = warn MinosOnFixed ?s1"
        by (rule minos_loop_single_returned)
      with out s' v f fm valid show ?thesis by auto
    qed
  qed
qed

lemma minos_some:
  assumes "minos E var sigma maxcall s = (Inr (Some items), s')"
  shows "\<exists>f fm s2. pyfcn s = Some f \<and> cfmin s = Some fm \<and> fm_valid fm \<and>
           minos_loop E fm var maxcall (list_of_fixed_param s)
             (case var of None \<Rightarrow> parameters s | Some v \<Rightarrow> [v])
             (SetErrorDef (f_up f * sigma * sigma) s) = (Inr Completed, s2) \<and>
           s' = SetErrorDef (f_up f) (refreshInternalState s2) \<and> items = merrors_struct s'"
  using minos_results [OF assms] by simp

lemma minos_none:
  assumes "minos E var sigma maxcall s = (Inr None, s')"
  shows "\<exists>f fm v. pyfcn s = Some f \<and> cfmin s = Some fm \<and> fm_valid fm \<and> var = Some v \<and>
           s' = warn MinosOnFixed (SetErrorDef (f_up f * sigma * sigma) s)"
  using minos_results [OF assms] by simp

lemma merrors_consistent_cong:
  "merrors s' = merrors s \<Longrightarrow> merrors_struct s' = merrors_struct s \<Longrightarrow>
     merrors_consistent s' = merrors_consistent s"
  by (simp add: merrors_consistent_def)

lemmas run_defs = minos_def hesse_def mncontour_def matrix_def print_matrix_def profile_def
  SetErrorDef_def warn_def list_of_fixed_param_def list_of_vary_param_def get_num_call_fcn_def
  cov_cell_def cor_cell_def cov_get_def div_sqrt_def linspace_def


text \<open>
  The calls that reach \<open>refreshInternalState\<close>. Let \<open>merrors_struct\<close> be a dictionary
  (no key twice). After a \<open>migrad\<close>, a \<open>hesse\<close> or a \<open>minos\<close> call that returns
  records, the legacy view is consistent with the records: \<open>merrors[(k, 1.0)]\<close> is the
  upper and \<open>merrors[(k, -1.0)]\<close> the lower offset of every parameter \<open>k\<close> with a
  record, and \<open>merrors\<close> has no other key. A \<open>minos\<close> call that returns \<open>None\<close> (a
  fixed parameter was requested) does not reach it: it changes neither the records nor
  the view, and leaves them as consistent or inconsistent as it found them.
\<close>

lemma legacy_view_after_refresh:
  assumes "dict_ok s"
  shows "(\<forall>r s'. migrad E ncall resume nsplit precision s = (Inr r, s') \<longrightarrow> merrors_consistent s') \<and>
         (\<forall>r s'. hesse E maxcall s = (Inr r, s') \<longrightarrow> merrors_consistent s') \<and>
         (\<forall>items s'. minos E var sigma maxcall s = (Inr (Some items), s') \<longrightarrow> merrors_consistent s') \<and>
         (merrors_consistent s \<longrightarrow>
            (\<forall>s'. minos E var sigma maxcall s = (Inr None, s') \<longrightarrow> merrors_consistent s'))"
proof -
  have m: "merrors_consistent s'" if "migrad E ncall resume nsplit precision s = (Inr r, s')" for r s'
    using assms that by (rule migrad_consistent)
  have h: "merrors_consistent s'" if "hesse E maxcall s = (Inr r, s')" for r s'
    using assms that by (rule hesse_consistent)
  have some: "merrors_consistent s'" if run: "minos E var sigma maxcall s = (Inr (Some items), s')"
    for items s'
  proof -
    from minos_some [OF run] obtain f fm s2 where
      "pyfcn s = Some f \<and> cfmin s = Some fm \<and> fm_valid fm \<and>
       minos_loop E fm var maxcall (list_of_fixed_param s)
               (case var of None \<Rightarrow> parameters s | Some v \<Rightarrow> [v])
               (SetErrorDef (f_up f * sigma * sigma) s) = (Inr Completed, s2) \<and>
       s' = SetErrorDef (f_up f) (refreshInternalState s2) \<and> items = merrors_struct s'"
      by (elim exE) (rule that)
    then have
      loop: "minos_loop E fm var maxcall (list_of_fixed_param s)
               (case var of None \<Rightarrow> parameters s | Some v \<Rightarrow> [v])
               (SetErrorDef (f_up f * sigma * sigma) s) = (Inr Completed, s2)"
      and s': "s' = SetErrorDef (f_up f) (refreshInternalState s2)" by simp_all
    from assms have "dict_ok (SetErrorDef (f_up f * sigma * sigma) s)" by (simp add: dict_ok_def)
    with minos_loop_frame [OF loop] have "dict_ok s2" by simp
    from refresh_consistent [OF this]
    have "merrors_consistent (refreshInternalState s2)" .
    moreover have "merrors_consistent (SetErrorDef (f_up f) (refreshInternalState s2)) =
        merrors_consistent (refreshInternalState s2)"
      by (rule merrors_consistent_cong) simp_all
    ultimately show ?thesis unfolding s' by simp
  qed
  have none: "merrors_consistent s'"
    if c: "merrors_consistent s" and run: "minos E var sigma maxcall s = (Inr None, s')" for s'
  proof -
    from minos_none [OF run] obtain f fm v where
      "pyfcn s = Some f \<and> cfmin s = Some fm \<and> fm_valid fm \<and> var = Some v \<and>
       s' = warn MinosOnFixed (SetErrorDef (f_up f * sigma * sigma) s)"
      by (elim exE) (rule that)
    then have "s' = warn MinosOnFixed (SetErrorDef (f_up f * sigma * sigma) s)" by simp
    moreover have "merrors_consistent (warn MinosOnFixed (SetErrorDef (f_up f * sigma * sigma) s)) =
        merrors_consistent s"
      by (rule merrors_consistent_cong) simp_all
    ultimately show ?thesis using c by simp
  qed
  show ?thesis
    by (intro conjI allI impI) (rule m h some none, assumption+)+
qed


lemma legacy_view_after_refresh_example:
  "dict_ok (demo_fitted []) \<and>
   (\<exists>items s'. minos demo_engine None 1 1000 (demo_fitted []) = (Inr (Some items), s') \<and>
      map fst items = [''a'', ''b''] \<and> merrors_consistent s' \<and>
      merrors s' (''a'', 1) = Some 1 \<and> merrors s' (''a'', - 1) = Some (- 1) \<and>
      merrors s' (''a'', 2) = None \<and> merrors s' (''c'', 1) = None)"
proof -
  define S where "S = demo_fitted []"
  define r where "r = minos demo_engine None 1 1000 S"
  have d: "dict_ok S"
    by (simp add: S_def dict_ok_def demo_defs model_defs sub_runs.simps)
  have items: "fst r = Inr (Some [(''a'', demo_minos_error), (''b'', demo_minos_error)])"
    and ms: "merrors_struct (snd r) = [(''a'', demo_minos_error), (''b'', demo_minos_error)]"
    by (simp_all add: r_def S_def demo_defs model_defs run_defs sub_runs.simps)
  then have run: "minos demo_engine None 1 1000 S =
      (Inr (Some [(''a'', demo_minos_error), (''b'', demo_minos_error)]), snd r)"
    by (simp add: r_def prod_eq_iff)
  from legacy_view_after_refresh [OF d, where E = demo_engine and var = None and sigma = 1
      and maxcall = 1000 and ncall = 0 and resume = True and nsplit = 1 and precision = None]
  have "\<forall>items s'. minos demo_engine None 1 1000 S = (Inr (Some items), s') \<longrightarrow> merrors_consistent s'"
    by simp
  with run have c: "merrors_consistent (snd r)" by blast
  from c ms have "merrors (snd r) (''a'', 1) = Some (upper demo_minos_error)"
    "merrors (snd r) (''a'', - 1) = Some (lower demo_minos_error)"
    by (simp_all add: merrors_consistent_def)
  then have v: "merrors (snd r) (''a'', 1) = Some 1" "merrors (snd r) (''a'', - 1) = Some (- 1)"
    by (simp_all add: demo_minos_error_def)
  from c have no: "merrors (snd r) (k, x) \<noteq> None \<Longrightarrow>
      (x = 1 \<or> x = - 1) \<and> map_of (merrors_struct (snd r)) k \<noteq> None" for k x
    unfolding merrors_consistent_def by blast
  from no [of "''a''" 2] have n1: "merrors (snd r) (''a'', 2) = None"
    by (cases "merrors (snd r) (''a'', 2)") simp_all
  from no [of "''c''" 1] ms have n2: "merrors (snd r) (''c'', 1) = None"
    by (cases "merrors (snd r) (''c'', 1)") simp_all
  show ?thesis
    unfolding S_def [symmetric]
    using d run c v n1 n2 by (intro conjI exI [of _ "snd r"] exI [of _ "[(''a'', demo_minos_error), (''b'', demo_minos_error)]"]) simp_all
qed


text \<open>
  C10 fails on the code. \<open>m = Minuit(f, fix_c=True)\<close> for an objective of \<open>a\<close>, \<open>b\<close>
  and \<open>c\<close>, and \<open>m.migrad()\<close>: the view is consistent. \<open>m.minos()\<close> stores the record
  of \<open>a\<close> (line 694) and raises in the scan of \<open>b\<close> (line 693), so that the refresh
  of line 698 is not reached. \<open>m.minos('c')\<close> then completes, with the warning and
  \<open>None\<close> (line 681), again without the refresh: \<open>a\<close> has a record, and \<open>merrors\<close>
  has no key \<open>('a', 1.0)\<close>.
\<close>

theorem stale_legacy_view_after_minos:
  "merrors_consistent demo3_fitted \<and>
   fst (minos faltering_engine None 1 1000 demo3_fitted) = Inl (ObjectiveRaised ''stop'') \<and>
   minos faltering_engine (Some ''c'') 1 1000 demo3_scanned =
     (Inr None, warn MinosOnFixed demo3_scanned) \<and>
   merrors_struct (warn MinosOnFixed demo3_scanned) = [(''a'', demo_minos_error)] \<and>
   merrors (warn MinosOnFixed demo3_scanned) (''a'', 1) = None \<and>
   \<not> merrors_consistent (warn MinosOnFixed demo3_scanned)"
proof -
  have fitted: "merrors_struct demo3_fitted = []" "merrors demo3_fitted = Map.empty"
    by (simp_all add: demo3_defs demo_defs model_defs sub_runs.simps)
  have c0: "merrors_consistent demo3_fitted"
    by (simp add: merrors_consistent_def fitted)
  have raised: "fst (minos faltering_engine None 1 1000 demo3_fitted) = Inl (ObjectiveRaised ''stop'')"
    by (simp add: demo3_defs demo_defs model_defs run_defs sub_runs.simps)
  have scanned: "merrors_struct demo3_scanned = [(''a'', demo_minos_error)]"
    "merrors demo3_scanned = Map.empty"
    by (simp_all add: demo3_scanned_def demo3_defs demo_defs model_defs run_defs sub_runs.simps)
  have completed: "minos faltering_engine (Some ''c'') 1 1000 demo3_scanned =
      (Inr None, warn MinosOnFixed demo3_scanned)"
    by (simp add: demo3_scanned_def demo3_defs demo_defs model_defs run_defs sub_runs.simps)
  have ms: "merrors_struct (warn MinosOnFixed demo3_scanned) = [(''a'', demo_minos_error)]"
    and me: "merrors (warn MinosOnFixed demo3_scanned) (''a'', 1) = None"
    by (simp_all add: warn_def scanned)
  have stale: "\<not> merrors_consistent (warn MinosOnFixed demo3_scanned)"
  proof
    assume "merrors_consistent (warn MinosOnFixed demo3_scanned)"
    then have "map_of (merrors_struct (warn MinosOnFixed demo3_scanned)) ''a'' = Some demo_minos_error \<longrightarrow>
        merrors (warn MinosOnFixed demo3_scanned) (''a'', 1) = Some (upper demo_minos_error)"
      unfolding merrors_consistent_def by blast
    with ms me show False by simp
  qed
  from c0 raised completed ms me stale show ?thesis by (intro conjI)
qed

theorem stale_legacy_view_after_minos_witness:
  "fst (minos faltering_engine (Some ''c'') 1 1000 demo3_scanned) = Inr None \<and>
   map_of (merrors_struct (warn MinosOnFixed demo3_scanned)) ''a'' \<noteq> None \<and>
   merrors (warn MinosOnFixed demo3_scanned) (''a'', 1) = None"
  by (simp only: stale_legacy_view_after_minos) simp

text \<open>
  C4. On a session that holds a valid minimum: \<open>minos\<close> with a name that is not a
  parameter fails with the \<open>RuntimeError\<close> that reports the name as not found;
  \<open>minos\<close> with no name, when it returns, returns the record mapping without
  any warning and with the entry of every fixed parameter as it was before the call
  (absent, if it was absent), and it does return when the engine's MINOS does;
  \<open>minos\<close> with the name of a fixed parameter gives the warning, returns \<open>None\<close>
  and computes no record.
\<close>

theorem minos_parameter_selection:
  assumes "pyfcn s = Some f" and "cfmin s = Some fm" and "fm_valid fm"
  shows "(v \<notin> set (parameters s) \<longrightarrow>
            fst (minos E (Some v) sigma maxcall s) = Inl (ParameterNotFound v (parameters s))) \<and>
         (\<forall>out s'. minos E None sigma maxcall s = (Inr out, s') \<longrightarrow>
            out = Some (merrors_struct s') \<and> diag s' = diag s \<and>
            (\<forall>k\<in>set (list_of_fixed_param s).
               map_of (merrors_struct s') k = map_of (merrors_struct s) k)) \<and>
         (minos_returns E \<longrightarrow>
            (\<exists>items s'. minos E None sigma maxcall s = (Inr (Some items), s'))) \<and>
         (v \<in> set (parameters s) \<and> initial_fix s v \<longrightarrow>
            (\<exists>s'. minos E (Some v) sigma maxcall s = (Inr None, s') \<and>
                  diag s' = diag s @ [MinosOnFixed] \<and> merrors_struct s' = merrors_struct s))"
proof -
  let ?s1 = "SetErrorDef (f_up f * sigma * sigma) s"
  have unknown: "fst (minos E (Some v) sigma maxcall s) = Inl (ParameterNotFound v (parameters s))"
    if "v \<notin> set (parameters s)"
    using assms that by (simp add: minos_def Let_def)
  have scan: "out = Some (merrors_struct s') \<and> diag s' = diag s \<and>
      (\<forall>k\<in>set (list_of_fixed_param s). map_of (merrors_struct s') k = map_of (merrors_struct s) k)"
    if run: "minos E None sigma maxcall s = (Inr out, s')" for out s'
  proof (cases out)
    case None
    with run have "minos E None sigma maxcall s = (Inr None, s')" by simp
    from minos_none [OF this] show ?thesis by simp
  next
    case (Some items)
    with run have "minos E None sigma maxcall s = (Inr (Some items), s')" by simp
    from minos_some [OF this] obtain f' fm' s2 where
      "pyfcn s = Some f' \<and> cfmin s = Some fm' \<and> fm_valid fm' \<and>
       minos_loop E fm' None maxcall (list_of_fixed_param s)
               (case None of None \<Rightarrow> parameters s | Some v \<Rightarrow> [v])
               (SetErrorDef (f_up f' * sigma * sigma) s) = (Inr Completed, s2) \<and>
       s' = SetErrorDef (f_up f') (refreshInternalState s2) \<and> items = merrors_struct s'"
      by (elim exE) (rule that)
    then have
      f': "pyfcn s = Some f'" and fm': "cfmin s = Some fm'"
      and loop': "minos_loop E fm' None maxcall (list_of_fixed_param s)
               (case None of None \<Rightarrow> parameters s | Some v \<Rightarrow> [v])
               (SetErrorDef (f_up f' * sigma * sigma) s) = (Inr Completed, s2)"
      and s': "s' = SetErrorDef (f_up f') (refreshInternalState s2)"
      and items: "items = merrors_struct s'" by simp_all
    from f' fm' assms have "f' = f" "fm' = fm" by simp_all
    with loop' have
      loop: "minos_loop E fm None maxcall (list_of_fixed_param s) (parameters s) ?s1 = (Inr Completed, s2)"
      by simp
    from minos_loop_frame [OF loop] s' Some items show ?thesis by simp
  qed
  have total: "\<exists>items s'. minos E None sigma maxcall s = (Inr (Some items), s')"
    if "minos_returns E"
  proof -
    have "pyfcn ?s1 \<noteq> None" using assms(1) by simp
    from minos_loop_returns [OF that this] obtain s2 where
      "minos_loop E fm None maxcall (list_of_fixed_param s) (parameters s) ?s1 = (Inr Completed, s2)"
      by blast
    with assms show ?thesis by (simp add: minos_def Let_def)
  qed
  have fixed: "\<exists>s'. minos E (Some v) sigma maxcall s = (Inr None, s') \<and>
      diag s' = diag s @ [MinosOnFixed] \<and> merrors_struct s' = merrors_struct s"
    if "v \<in> set (parameters s) \<and> initial_fix s v"
    using minos_on_fixed [OF assms, of v E sigma maxcall] that by simp
  show ?thesis
  proof (intro conjI)
    show "v \<notin> set (parameters s) \<longrightarrow>
            fst (minos E (Some v) sigma maxcall s) = Inl (ParameterNotFound v (parameters s))"
      by (intro impI) (rule unknown)
    show "\<forall>out s'. minos E None sigma maxcall s = (Inr out, s') \<longrightarrow>
            out = Some (merrors_struct s') \<and> diag s' = diag s \<and>
            (\<forall>k\<in>set (list_of_fixed_param s).
               map_of (merrors_struct s') k = map_of (merrors_struct s) k)"
      by (intro allI impI) (rule scan)
    show "minos_returns E \<longrightarrow>
            (\<exists>items s'. minos E None sigma maxcall s = (Inr (Some items), s'))"
      by (intro impI) (rule total)
    show "v \<in> set (parameters s) \<and> initial_fix s v \<longrightarrow>
            (\<exists>s'. minos E (Some v) sigma maxcall s = (Inr None, s') \<and>
                  diag s' = diag s @ [MinosOnFixed] \<and> merrors_struct s' = merrors_struct s)"
      by (intro impI) (rule fixed)
  qed
qed

theorem minos_parameter_selection_witness:
  "fst (minos demo_engine (Some ''zz'') 1 1000 (demo_fitted [(''fix_a'', KBool True)])) =
     Inl (ParameterNotFound ''zz'' [''a'', ''b'']) \<and>
   (\<exists>items s'. minos demo_engine None 1 1000 (demo_fitted [(''fix_a'', KBool True)]) =
        (Inr (Some items), s') \<and>
      map_of items ''a'' = None \<and> map_of items ''b'' = Some demo_minos_error \<and>
      diag s' = diag (demo_fitted [(''fix_a'', KBool True)])) \<and>
   (\<exists>s'. minos demo_engine (Some ''a'') 1 1000 (demo_fitted [(''fix_a'', KBool True)]) =
        (Inr None, s') \<and>
      diag s' = diag (demo_fitted [(''fix_a'', KBool True)]) @ [MinosOnFixed])"
proof -
  define S where "S = demo_fitted [(''fix_a'', KBool True)]"
  have "pyfcn S \<noteq> None" "cfmin S \<noteq> None"
    by (simp_all add: S_def demo_defs model_defs sub_runs.simps)
  then obtain f fm where f: "pyfcn S = Some f" and fm: "cfmin S = Some fm" by auto
  have "map_option fm_valid (cfmin S) = Some True"
    by (simp add: S_def demo_defs model_defs sub_runs.simps)
  with fm have valid: "fm_valid fm" by simp
  have ps: "parameters S = [''a'', ''b'']"
    and fx: "initial_fix S ''a''"
    and fixed: "list_of_fixed_param S = [''a'']"
    and ms: "merrors_struct S = []"
    by (simp_all add: S_def demo_defs model_defs run_defs sub_runs.simps)
  have ret: "minos_returns demo_engine"
    by (simp add: minos_returns_def demo_engine_def)
  note sel = minos_parameter_selection [OF f fm valid, of _ demo_engine 1 1000]
  from sel [of "''zz''"] ps
  have a: "fst (minos demo_engine (Some ''zz'') 1 1000 S) = Inl (ParameterNotFound ''zz'' [''a'', ''b''])"
    by simp
  from sel [of "''a''"] ret obtain items s' where
    run: "minos demo_engine None 1 1000 S = (Inr (Some items), s')" by blast
  with sel [of "''a''"] fixed ms have
    b1: "items = merrors_struct s'" "diag s' = diag S" "map_of items ''a'' = None"
    by auto
  have "map_option (\<lambda>x. map_of x ''b'') (projr (fst (minos demo_engine None 1 1000 S))) =
      Some (Some demo_minos_error)"
    by (simp add: S_def demo_defs model_defs run_defs sub_runs.simps)
  with run have b2: "map_of items ''b'' = Some demo_minos_error" by simp
  from sel [of "''a''"] ps fx obtain s'' where
    c: "minos demo_engine (Some ''a'') 1 1000 S = (Inr None, s'')" "diag s'' = diag S @ [MinosOnFixed]"
    by auto
  from a run b1 b2 c show ?thesis unfolding S_def by blast
qed

lemma minos_loop_adapter:
  "minos_loop E fm var maxcall fixed vs s = (res, s') \<Longrightarrow>
     map_option f_up (pyfcn s') = map_option f_up (pyfcn s)"
proof (induction vs arbitrary: s)
  case Nil
  then show ?case by auto
next
  case (Cons vname rest)
  show ?case
  proof (cases "vname \<in> set fixed")
    case True
    show ?thesis
    proof (cases "var = None")
      case True
      with \<open>vname \<in> set fixed\<close> Cons.prems have "minos_loop E fm var maxcall fixed rest s = (res, s')"
        by simp
      from Cons.IH [OF this] show ?thesis .
    next
      case False
      with \<open>vname \<in> set fixed\<close> Cons.prems have "s' = warn MinosOnFixed s" by auto
      then show ?thesis by simp
    qed
  next
    case False
    note nf = this
    show ?thesis
    proof (cases "pyfcn s")
      case None
      with nf Cons.prems show ?thesis by auto
    next
      case (Some f)
      obtain out n g where run:
        "run_minos E f fm (strategy s) (Index (u_params (fm_state fm)) vname) maxcall = (out, n, g)"
        by (metis surj_pair)
      show ?thesis
      proof (cases out)
        case (Inl e)
        with nf Some run Cons.prems have "s' = charge n g s" by auto
        then show ?thesis by simp
      next
        case (Inr mnerror)
        let ?s2 = "(charge n g s)\<lparr>merrors_struct := AList.update vname mnerror (merrors_struct s)\<rparr>"
        from nf Some run Inr Cons.prems have
          "minos_loop E fm var maxcall fixed rest ?s2 = (res, s')" by (simp add: Let_def)
        from Cons.IH [OF this] have "map_option f_up (pyfcn s') = map_option f_up (pyfcn ?s2)" .
        also have "\<dots> = map_option f_up (pyfcn (charge n g s))" by simp
        also have "\<dots> = map_option f_up (pyfcn s)" by simp
        finally show ?thesis .
      qed
    qed
  qed
qed

text \<open>On the path that reaches line 700 the error definition is put back.\<close>

lemma minos_restores_errordef_on_return:
  assumes "minos E var sigma maxcall s = (Inr (Some items), s')"
  shows "map_option f_up (pyfcn s') = map_option f_up (pyfcn s)"
proof -
  from minos_some [OF assms] obtain f fm s2 where
    "pyfcn s = Some f \<and> cfmin s = Some fm \<and> fm_valid fm \<and>
     minos_loop E fm var maxcall (list_of_fixed_param s)
       (case var of None \<Rightarrow> parameters s | Some v \<Rightarrow> [v])
       (SetErrorDef (f_up f * sigma * sigma) s) = (Inr Completed, s2) \<and>
     s' = SetErrorDef (f_up f) (refreshInternalState s2) \<and> items = merrors_struct s'"
    by (elim exE) (rule that)
  then have f: "pyfcn s = Some f"
    and loop: "minos_loop E fm var maxcall (list_of_fixed_param s)
       (case var of None \<Rightarrow> parameters s | Some v \<Rightarrow> [v])
       (SetErrorDef (f_up f * sigma * sigma) s) = (Inr Completed, s2)"
    and s': "s' = SetErrorDef (f_up f) (refreshInternalState s2)" by simp_all
  from minos_loop_adapter [OF loop] f have "pyfcn s2 \<noteq> None" by auto
  then obtain f2 where "pyfcn s2 = Some f2" by auto
  with s' f show ?thesis by (simp add: SetErrorDef_def)
qed

lemma mncontour_restores_errordef_on_return:
  assumes "mncontour E x y numpoints sigma s = (Inr r, s')"
  shows "map_option f_up (pyfcn s') = map_option f_up (pyfcn s)"
  using assms
  by (auto simp: mncontour_def Let_def SetErrorDef_def charge_def
        split: option.splits if_splits prod.splits sum.splits)


text \<open>
  C1 fails on the code: the value of \<open>Up()\<close> set at line 662 (line 1332 for the contour)
  is put back at line 700 (1350) only, which the early exits do not reach. After
  \<open>minos('a', sigma=2)\<close> on a session with \<open>a\<close> fixed and error definition 1, the call
  has returned \<open>None\<close> and the adapter holds the error definition 4; it holds 4 as
  well after \<open>mncontour('a', 'b', sigma=2)\<close> or \<open>minos(sigma=2)\<close> whose scan raises,
  and after \<open>minos(sigma=2)\<close> is refused for an invalid minimum.
\<close>

theorem errordef_leaks_on_failure_paths:
  "map_option f_up (pyfcn (demo_fitted [(''fix_a'', KBool True)])) = Some 1 \<and>
   fst (minos demo_engine (Some ''a'') 2 1000 (demo_fitted [(''fix_a'', KBool True)])) = Inr None \<and>
   map_option f_up
     (pyfcn (snd (minos demo_engine (Some ''a'') 2 1000 (demo_fitted [(''fix_a'', KBool True)])))) =
     Some 4 \<and>
   map_option f_up (pyfcn (demo_fitted [])) = Some 1 \<and>
   fst (mncontour demo_engine ''a'' ''b'' 20 2 (demo_fitted [])) = Inl (ObjectiveRaised ''stop'') \<and>
   map_option f_up (pyfcn (snd (mncontour demo_engine ''a'' ''b'' 20 2 (demo_fitted [])))) = Some 4 \<and>
   fst (minos raising_engine None 2 1000 (demo_fitted [])) = Inl (ObjectiveRaised ''stop'') \<and>
   map_option f_up (pyfcn (snd (minos raising_engine None 2 1000 (demo_fitted [])))) = Some 4 \<and>
   map_option f_up (pyfcn demo_unconverged) = Some 1 \<and>
   fst (minos demo_engine None 2 1000 demo_unconverged) = Inl MinimumNotValid \<and>
   map_option f_up (pyfcn (snd (minos demo_engine None 2 1000 demo_unconverged))) = Some 4"
  by (simp add: demo_defs model_defs run_defs sub_runs.simps)

theorem errordef_leaks_on_failure_paths_witness:
  "map_option f_up
     (pyfcn (snd (minos demo_engine (Some ''a'') 2 1000 (demo_fitted [(''fix_a'', KBool True)])))) \<noteq>
   map_option f_up (pyfcn (demo_fitted [(''fix_a'', KBool True)])) \<and>
   map_option f_up (pyfcn (snd (mncontour demo_engine ''a'' ''b'' 20 2 (demo_fitted [])))) \<noteq>
   map_option f_up (pyfcn (demo_fitted []))"
  by (simp only: errordef_leaks_on_failure_paths) simp

section \<open>\<open>profile\<close>\<close>

lemma profile_scan_ok:
  assumes "pos < length arg" and "\<forall>x. \<exists>y. o_call (fcn s) (arg[pos := x]) = Inr y"
  shows "profile_scan pos val arg s =
           (Inr (map (\<lambda>x. projr (o_call (fcn s) (arg[pos := x]))) val),
            s\<lparr>direct_calls := direct_calls s @ map (\<lambda>x. arg[pos := x]) val\<rparr>)"
  using assms
proof (induction val arbitrary: arg s)
  case Nil
  then show ?case by simp
next
  case (Cons x xs)
  from Cons.prems(2) obtain y where y: "o_call (fcn s) (arg[pos := x]) = Inr y" by blast
  let ?arg = "arg[pos := x]"
  let ?s = "s\<lparr>direct_calls := direct_calls s @ [?arg]\<rparr>"
  have p: "pos < length ?arg" using Cons.prems(1) by simp
  have q: "\<forall>x'. \<exists>y. o_call (fcn ?s) (?arg[pos := x']) = Inr y"
    using Cons.prems(2) by simp
  from Cons.IH [OF p q] y Cons.prems(1) show ?case by simp
qed

lemma linspace_points:
  assumes "0 \<le> bins"
  shows "\<exists>val. linspace lo hi bins = Inr val \<and> length val = nat bins \<and>
           (\<forall>i<nat bins. val ! i = lo + real i * ((hi - lo) / real (nat bins - 1))) \<and>
           (2 \<le> bins \<longrightarrow> val ! 0 = lo \<and> val ! (nat bins - 1) = hi)"
proof (cases "bins = 1")
  case True
  then show ?thesis by (simp add: linspace_def)
next
  case False
  let ?val = "map (\<lambda>i. lo + real i * ((hi - lo) / real (nat bins - 1))) [0..<nat bins]"
  from False assms have l: "linspace lo hi bins = Inr ?val" by (simp add: linspace_def)
  have "?val ! (nat bins - 1) = hi" if "2 \<le> bins"
  proof -
    from that have "nat bins - 1 < nat bins" and nz: "real (nat bins - 1) \<noteq> 0" by auto
    then have "?val ! (nat bins - 1) = lo + real (nat bins - 1) * ((hi - lo) / real (nat bins - 1))"
      by simp
    also from nz have "\<dots> = hi" by simp
    finally show ?thesis .
  qed
  moreover have "?val ! 0 = lo" if "2 \<le> bins" using that by simp
  ultimately show ?thesis using l by simp
qed

text \<open>
  C5, as the code has it. For a known parameter, \<open>bins \<ge> 0\<close> and an objective that
  returns on the scanned line, \<open>profile(parameter, bins, bound=(lo, hi))\<close> returns
  \<open>bins\<close> evenly spaced points from \<open>lo\<close> to \<open>hi\<close> and the \<open>bins\<close> values of the
  objective there, all other arguments being the session's current values; it calls the
  user's callable directly, \<open>bins\<close> times and on these arguments only (no
  sub-minimization), changes nothing else of the session, and so leaves the session's
  count of objective calls as it was.
\<close>

theorem profile_scans_without_counting:
  assumes "var2pos s vname = Some pos" and "pos < length (args s)" and "0 \<le> bins"
    and "\<forall>x. \<exists>y. o_call (fcn s) ((args s)[pos := x]) = Inr y"
  shows "\<exists>val result s'.
           profile vname bins (Interval lo hi) None False s = (Inr (val, result), s') \<and>
           length val = nat bins \<and> length result = nat bins \<and>
           (\<forall>i<nat bins. val ! i = lo + real i * ((hi - lo) / real (nat bins - 1))) \<and>
           (2 \<le> bins \<longrightarrow> val ! 0 = lo \<and> val ! (nat bins - 1) = hi) \<and>
           (\<forall>i<nat bins. o_call (fcn s) ((args s)[pos := val ! i]) = Inr (result ! i)) \<and>
           direct_calls s' = direct_calls s @ map (\<lambda>x. (args s)[pos := x]) val \<and>
           s' = s\<lparr>direct_calls := direct_calls s'\<rparr> \<and>
           get_num_call_fcn s' = get_num_call_fcn s"
proof -
  from linspace_points [OF assms(3), of lo hi] obtain val where
    lin: "linspace lo hi bins = Inr val" and len: "length val = nat bins"
    and pts: "\<forall>i<nat bins. val ! i = lo + real i * ((hi - lo) / real (nat bins - 1))"
    and ends: "2 \<le> bins \<longrightarrow> val ! 0 = lo \<and> val ! (nat bins - 1) = hi" by blast
  define result where "result = map (\<lambda>x. projr (o_call (fcn s) ((args s)[pos := x]))) val"
  define s' where "s' = s\<lparr>direct_calls := direct_calls s @ map (\<lambda>x. (args s)[pos := x]) val\<rparr>"
  from profile_scan_ok [OF assms(2,4), of val]
  have scan: "profile_scan pos val (args s) s = (Inr result, s')"
    by (simp add: result_def s'_def)
  have run: "profile vname bins (Interval lo hi) None False s = (Inr (val, result), s')"
    using assms(1) lin scan by (simp add: profile_def s'_def split: option.splits)
  have res: "o_call (fcn s) ((args s)[pos := val ! i]) = Inr (result ! i)" if "i < nat bins" for i
  proof -
    from assms(4) obtain y where "o_call (fcn s) ((args s)[pos := val ! i]) = Inr y" by blast
    with that len show ?thesis by (simp add: result_def)
  qed
  have "length result = nat bins" by (simp add: result_def len)
  moreover have "direct_calls s' = direct_calls s @ map (\<lambda>x. (args s)[pos := x]) val"
    by (simp add: s'_def)
  moreover have "s' = s\<lparr>direct_calls := direct_calls s'\<rparr>" by (simp add: s'_def)
  moreover have "get_num_call_fcn s' = get_num_call_fcn s"
    by (simp add: s'_def get_num_call_fcn_def)
  ultimately show ?thesis
    using run len pts ends res by (intro exI [of _ val] exI [of _ result] exI [of _ s']) simp
qed

lemma upt_0_5: "[0..<5] = [0, 1, 2, 3, 4::nat]"
  by code_simp

text \<open>
  C5, as stated, fails on the call count: after a fit that took 24 calls,
  \<open>profile('a', bins=5, bound=(0, 4))\<close> returns the five points and values, and the
  session still counts 24 calls, not 29.
\<close>

theorem profile_call_count_counterexample:
  "get_num_call_fcn (demo_fitted []) = 24 \<and>
   fst (profile ''a'' 5 (Interval 0 4) None False (demo_fitted [])) =
     Inr ([0, 1, 2, 3, 4], [5, 2, 1, 2, 5]) \<and>
   get_num_call_fcn (snd (profile ''a'' 5 (Interval 0 4) None False (demo_fitted []))) = 24"
  by (simp add: demo_defs model_defs run_defs sub_runs.simps upt_0_5)

theorem profile_scans_without_counting_witness:
  "\<exists>val result s'.
     profile ''a'' 5 (Interval 0 4) None False (demo_fitted []) = (Inr (val, result), s') \<and>
     length val = 5 \<and> val ! 0 = 0 \<and> val ! 4 = 4 \<and> length result = 5 \<and>
     length (direct_calls s') = 5 \<and> get_num_call_fcn s' = 24"
proof -
  define S where "S = demo_fitted []"
  have h1: "var2pos S ''a'' = Some 0" and ar: "args S = [2, 2]" and dc: "direct_calls S = []"
    and n: "get_num_call_fcn S = 24"
    and call: "o_call (fcn S) = o_call demo_objective"
    by (simp_all add: S_def demo_defs model_defs run_defs sub_runs.simps)
  have h2: "0 < length (args S)" by (simp add: ar)
  have h3: "(0::int) \<le> 5" by simp
  have h4: "\<forall>x. \<exists>y. o_call (fcn S) ((args S)[0 := x]) = Inr y"
    by (simp add: call ar demo_objective_def)
  from profile_scans_without_counting [OF h1 h2 h3 h4, of 0 4]
  obtain val result s' where
    r: "profile ''a'' 5 (Interval 0 4) None False S = (Inr (val, result), s')"
      "length val = 5" "length result = 5"
      "val ! 0 = 0 \<and> val ! (nat 5 - 1) = 4"
      "direct_calls s' = direct_calls S @ map (\<lambda>x. (args S)[0 := x]) val"
      "get_num_call_fcn s' = get_num_call_fcn S"
    by auto
  then have "val ! 4 = 4" "val ! 0 = 0" "length (direct_calls s') = 5" by (simp_all add: dc)
  with r n show ?thesis unfolding S_def by auto
qed


section \<open>\<open>matrix\<close>\<close>

lemma sqrt_16: "sqrt 16 = 4"
proof -
  have "sqrt 16 = sqrt (4\<^sup>2)" by simp
  also have "\<dots> = 4" by (simp only: real_sqrt_abs)
  finally show ?thesis .
qed

lemma matrix_fixed_last:
  "matrix True True (demo_fitted [(''fix_b'', KBool True)]) = Inr [[Num 1]]"
  by (simp add: demo_defs model_defs run_defs sub_runs.simps sqrt_16)


text \<open>
  C8 fails on the code. \<open>matrix\<close> takes row and column from the parameter's position
  among all parameters (lines 715--722, 732), while the covariance is indexed over the
  varying parameters only, as \<open>refreshInternalState\<close> reads it (lines 1464--1466). With
  \<open>a\<close> fixed and \<open>b\<close> varying, the state holds a one-by-one covariance, and both
  \<open>matrix(correlation=True, skip_fixed=True)\<close> and \<open>matrix(skip_fixed=False)\<close> ask
  for the entry \<open>(1, 1)\<close>, which it does not have. The read is outside of the matrix,
  which \<open>cov_get\<close> gives as the failure of the engine's range assertion: the diagonal
  of ones is not what comes back. With \<open>b\<close> fixed instead, positions and indices agree
  and the correlation matrix is \<open>((1.0,),)\<close>.
\<close>

theorem matrix_reads_covariance_at_parameter_position:
  "map_option (map (\<lambda>p. (p_name p, p_fixed p)) \<circ> u_params)
     (last_upst (demo_fitted [(''fix_a'', KBool True)])) = Some [(''a'', True), (''b'', False)] \<and>
   map_option c_nrow
     (Option.bind (last_upst (demo_fitted [(''fix_a'', KBool True)])) u_cov) = Some 1 \<and>
   matrix True True (demo_fitted [(''fix_a'', KBool True)]) = Inl (CovIndexOutOfRange 1 1) \<and>
   matrix False False (demo_fitted [(''fix_a'', KBool True)]) = Inl (CovIndexOutOfRange 1 1)"
  by (simp add: demo_defs model_defs run_defs sub_runs.simps)

theorem matrix_reads_covariance_at_parameter_position_witness:
  "matrix True True (demo_fitted [(''fix_a'', KBool True)]) \<noteq> Inr [[Num 1]]"
  by (simp only: matrix_reads_covariance_at_parameter_position) simp

section \<open>Diagnostics\<close>

lemma check_extra_args_unknown:
  assumes "k \<in> set ks" and "\<not> known_keyword ps k"
  shows "\<exists>k'. check_extra_args ps ks = Inl (UnknownKeyword k' ps) \<and> k' \<in> set ks \<and>
           \<not> known_keyword ps k'"
  using assms
proof (induction ks)
  case Nil
  then show ?case by simp
next
  case (Cons x xs)
  show ?case
  proof (cases "known_keyword ps x")
    case False
    then have "check_extra_args ps (x # xs) = Inl (UnknownKeyword x ps)"
      by (simp add: known_keyword_def)
    with False show ?thesis by auto
  next
    case True
    then have step: "check_extra_args ps (x # xs) = check_extra_args ps xs"
      by (auto simp: known_keyword_def)
    from True Cons.prems have "k \<in> set xs" by auto
    from Cons.IH [OF this Cons.prems(2)] step show ?thesis by auto
  qed
qed

lemma hesse_failed_quiet:
  assumes "cfmin s = Some fm" and "pyfcn s = Some f"
    and "run_hesse E f (fm_state fm) (strategy s) maxcall = (Inr upst, n, g)"
    and "u_cov upst = None" and "print_level s \<le> 0"
  shows "\<exists>s'. hesse E maxcall s = (Inr (u_params upst), s') \<and>
           diag s' = diag s @ [HesseFailedWarning] \<and> last_upst s' = Some upst"
proof -
  let ?s2 = "(warn HesseFailedWarning (charge n g s))\<lparr>last_upst := Some upst\<rparr>"
  have pl: "print_level (refreshInternalState ?s2) = print_level s"
    by (simp add: refreshInternalState_def warn_def charge_def Let_def)
  have "hesse E maxcall s = (Inr (u_params upst), refreshInternalState ?s2)"
    using assms pl by (simp add: hesse_def Let_def)
  moreover have "diag (refreshInternalState ?s2) = diag s @ [HesseFailedWarning]" by simp
  moreover have "last_upst (refreshInternalState ?s2) = Some upst" by simp
  ultimately show ?thesis by blast
qed

text \<open>
  With printing on (\<open>print_level > 0\<close>, the constructor's default), the same call ends
  in the \<open>RuntimeError\<close> of \<open>print_matrix\<close>, which asks \<open>matrix\<close> for a covariance
  that is not there.
\<close>

lemma hesse_failed_printing:
  assumes "cfmin s = Some fm" and "pyfcn s = Some f"
    and "run_hesse E f (fm_state fm) (strategy s) maxcall = (Inr upst, n, g)"
    and "u_cov upst = None" and "0 < print_level s"
  shows "fst (hesse E maxcall s) = Inl CovarianceNotValid"
proof -
  let ?s2 = "(warn HesseFailedWarning (charge n g s))\<lparr>last_upst := Some upst\<rparr>"
  have pl: "print_level (refreshInternalState ?s2) = print_level s"
    by (simp add: refreshInternalState_def warn_def charge_def Let_def)
  have "print_matrix (refreshInternalState ?s2) = Inl CovarianceNotValid"
    using assms(4) by (simp add: print_matrix_def matrix_def)
  with assms pl show ?thesis by (simp add: hesse_def Let_def)
qed

text \<open>
  C9, as the code has it. The HESSE-failed warning and the warning for a fixed parameter
  requested for MINOS do not abort: \<open>hesse\<close>, with printing off, records the warning
  and returns the parameters of the state without covariance; \<open>minos\<close> on a fixed
  parameter records the warning and returns \<open>None\<close>. An unknown keyword is no
  diagnostic: the constructor raises the \<open>RuntimeError\<close> that names the first keyword
  it does not understand, and no session exists.
\<close>

theorem diagnostics_and_unknown_keywords:
  "(cfmin s = Some fm \<and> pyfcn s = Some f \<and>
    run_hesse E f (fm_state fm) (strategy s) maxcall = (Inr upst, n, g) \<and>
    u_cov upst = None \<and> print_level s \<le> 0 \<longrightarrow>
      (\<exists>s'. hesse E maxcall s = (Inr (u_params upst), s') \<and>
            diag s' = diag s @ [HesseFailedWarning] \<and> last_upst s' = Some upst)) \<and>
   (pyfcn s = Some f \<and> cfmin s = Some fm \<and> fm_valid fm \<and>
    v \<in> set (parameters s) \<and> initial_fix s v \<longrightarrow>
      (\<exists>s'. minos E (Some v) sigma maxcall s = (Inr None, s') \<and>
            diag s' = diag s @ [MinosOnFixed])) \<and>
   (\<not> (a_use_array_call a \<and> a_forced_parameters a = None) \<and>
    k \<in> set (map fst (a_kwds a)) \<and>
    \<not> known_keyword (case a_forced_parameters a of None \<Rightarrow> o_describe f0 | Some fp \<Rightarrow> fp) k \<longrightarrow>
      (\<exists>k'. init U f0 a =
               Inl (UnknownKeyword k'
                      (case a_forced_parameters a of None \<Rightarrow> o_describe f0 | Some fp \<Rightarrow> fp)) \<and>
            k' \<in> set (map fst (a_kwds a)) \<and>
            \<not> known_keyword (case a_forced_parameters a of None \<Rightarrow> o_describe f0 | Some fp \<Rightarrow> fp) k'))"
proof (intro conjI impI)
  assume "cfmin s = Some fm \<and> pyfcn s = Some f \<and>
    run_hesse E f (fm_state fm) (strategy s) maxcall = (Inr upst, n, g) \<and>
    u_cov upst = None \<and> print_level s \<le> 0"
  then show "\<exists>s'. hesse E maxcall s = (Inr (u_params upst), s') \<and>
            diag s' = diag s @ [HesseFailedWarning] \<and> last_upst s' = Some upst"
    using hesse_failed_quiet [of s fm f E maxcall upst n g] by simp
next
  assume a: "pyfcn s = Some f \<and> cfmin s = Some fm \<and> fm_valid fm \<and>
    v \<in> set (parameters s) \<and> initial_fix s v"
  then have "minos E (Some v) sigma maxcall s =
      (Inr None, warn MinosOnFixed (SetErrorDef (f_up f * sigma * sigma) s))"
    using minos_on_fixed [of s f fm v E sigma maxcall] by simp
  then show "\<exists>s'. minos E (Some v) sigma maxcall s = (Inr None, s') \<and>
            diag s' = diag s @ [MinosOnFixed]" by simp
next
  let ?ps = "case a_forced_parameters a of None \<Rightarrow> o_describe f0 | Some fp \<Rightarrow> fp"
  assume a: "\<not> (a_use_array_call a \<and> a_forced_parameters a = None) \<and>
    k \<in> set (map fst (a_kwds a)) \<and> \<not> known_keyword ?ps k"
  then have "k \<in> set (map fst (a_kwds a))" "\<not> known_keyword ?ps k" by simp_all
  from check_extra_args_unknown [OF this] obtain k' where
    k': "check_extra_args ?ps (map fst (a_kwds a)) = Inl (UnknownKeyword k' ?ps)"
      "k' \<in> set (map fst (a_kwds a))" "\<not> known_keyword ?ps k'" by blast
  from a k'(1) have "init U f0 a = Inl (UnknownKeyword k' ?ps)"
    by (simp add: init_def Let_def)
  with k'(2,3) show "\<exists>k'. init U f0 a = Inl (UnknownKeyword k' ?ps) \<and>
      k' \<in> set (map fst (a_kwds a)) \<and> \<not> known_keyword ?ps k'" by blast
qed


theorem diagnostics_and_unknown_keywords_witness:
  "(\<exists>ps s'. hesse demo_engine 1000 (demo_fitted []) = (Inr ps, s') \<and>
      map p_name ps = [''a'', ''b''] \<and> diag s' = [HesseFailedWarning]) \<and>
   (\<exists>s'. minos demo_engine (Some ''a'') 1 1000 (demo_fitted [(''fix_a'', KBool True)]) =
      (Inr None, s') \<and> diag s' = [MinosOnFixed]) \<and>
   (\<exists>k'. init demo_util demo_objective (demo_args [(''c'', KFloat 1)]) =
      Inl (UnknownKeyword k' [''a'', ''b'']))"
proof -
  define S where "S = demo_fitted []"
  define T where "T = demo_fitted [(''fix_a'', KBool True)]"
  have "pyfcn S \<noteq> None" "cfmin S \<noteq> None" "pyfcn T \<noteq> None" "cfmin T \<noteq> None"
    by (simp_all add: S_def T_def demo_defs model_defs sub_runs.simps)
  then obtain f fm f' fm' where
    S: "pyfcn S = Some f" "cfmin S = Some fm" and T: "pyfcn T = Some f'" "cfmin T = Some fm'"
    by auto
  have "map_option fm_valid (cfmin T) = Some True"
    by (simp add: T_def demo_defs model_defs sub_runs.simps)
  with T have valid: "fm_valid fm'" by simp
  have factsS: "print_level S \<le> 0" "diag S = []"
    "map_option (map p_name \<circ> u_params \<circ> fm_state) (cfmin S) = Some [''a'', ''b'']"
    by (simp_all add: S_def demo_defs model_defs sub_runs.simps)
  have factsT: "''a'' \<in> set (parameters T)" "initial_fix T ''a''" "diag T = []"
    by (simp_all add: T_def demo_defs model_defs sub_runs.simps)
  have run: "run_hesse demo_engine f (fm_state fm) (strategy S) 1000 =
      (Inr ((fm_state fm)\<lparr>u_cov := None\<rparr>), 5, 0)"
    by (simp add: demo_engine_def)
  have "u_cov ((fm_state fm)\<lparr>u_cov := None\<rparr>) = None" by simp
  with diagnostics_and_unknown_keywords
    [where s = S and fm = fm and f = f and E = demo_engine and maxcall = 1000
       and upst = "(fm_state fm)\<lparr>u_cov := None\<rparr>" and n = 5 and g = 0, THEN conjunct1]
    S run factsS(1)
  have "\<exists>s'. hesse demo_engine 1000 S = (Inr (u_params ((fm_state fm)\<lparr>u_cov := None\<rparr>)), s') \<and>
      diag s' = diag S @ [HesseFailedWarning] \<and> last_upst s' = Some ((fm_state fm)\<lparr>u_cov := None\<rparr>)"
    by blast
  then obtain s' where h: "hesse demo_engine 1000 S = (Inr (u_params ((fm_state fm)\<lparr>u_cov := None\<rparr>)), s')"
    "diag s' = diag S @ [HesseFailedWarning]" by blast
  from factsS(3) S have names: "map p_name (u_params ((fm_state fm)\<lparr>u_cov := None\<rparr>)) = [''a'', ''b'']"
    by simp
  from diagnostics_and_unknown_keywords
    [where s = T and fm = fm' and f = f' and E = demo_engine and maxcall = 1000
       and v = "''a''" and sigma = 1, THEN conjunct2, THEN conjunct1]
    T valid factsT
  have "\<exists>s'. minos demo_engine (Some ''a'') 1 1000 T = (Inr None, s') \<and>
      diag s' = diag T @ [MinosOnFixed]" by blast
  then obtain s'' where m: "minos demo_engine (Some ''a'') 1 1000 T = (Inr None, s'')"
    "diag s'' = diag T @ [MinosOnFixed]" by blast
  have "\<not> known_keyword [''a'', ''b''] ''c''" by (simp add: known_keyword_def)
  with diagnostics_and_unknown_keywords
    [where a = "demo_args [(''c'', KFloat 1)]" and k = "''c''" and ?f0.0 = demo_objective
       and U = demo_util, THEN conjunct2, THEN conjunct2]
  obtain k' where u: "init demo_util demo_objective (demo_args [(''c'', KFloat 1)]) =
      Inl (UnknownKeyword k' [''a'', ''b''])"
    by (auto simp: demo_args_def demo_objective_def)
  from h names factsS(2) m factsT(3) u show ?thesis
    unfolding S_def T_def by auto
qed

text \<open>
  C9, as stated, fails: the keyword \<open>c\<close>, for an objective of \<open>a\<close> and \<open>b\<close>, makes
  the constructor raise.
\<close>

theorem unknown_keyword_counterexample:
  "init demo_util demo_objective (demo_args [(''c'', KFloat 1)]) =
     Inl (UnknownKeyword ''c'' [''a'', ''b''])"
  by (simp add: demo_defs model_defs)

end
